theory Spec2Isabelle
  imports Complex_Main
begin

section \<open>Configuration (config.py)\<close>

definition BLOCKS_PER_DAY :: int where
  "BLOCKS_PER_DAY = 14400"

definition CHART_WINDOW_SIZE :: int where
  "CHART_WINDOW_SIZE = 15000"

definition MAX_DATA_POINTS_PER_CHART :: nat where
  "MAX_DATA_POINTS_PER_CHART = 40"

section \<open>Data model\<close>

text \<open>
  A cell of a numeric column is a float64: a finite number, an infinity or NaN (the
  missing value of \<open>read_csv\<close>). The two zeros of IEEE 754 are one \<open>Num 0\<close>; they are
  equal under \<open>==\<close>.
\<close>

datatype f64 = Num real | PInf | NInf | NaN

text \<open>
  A row of the table: the key column \<open>block\<close> and the other columns in column order,
  by name. The blocks of the data file and the animation position are reals: the integer
  blocks are embedded in them, and a block that is missing (NaN) is outside the model. A
  pandas Series that holds a row has the same shape; \<open>pd.Series()\<close> is \<open>Empty_Series\<close>.
\<close>

record row =
  block :: real
  vals :: "(string \<times> f64) list"

datatype series = Empty_Series | Series row

text \<open>
  A DataFrame: the rows in positional order, each with its index label, and the value of
  \<open>data.attrs.get('block_interval', 1000)\<close> (a frame without the attribute has
  \<open>block_interval = 1000\<close>, which no function below can tell apart).
\<close>

record dataframe =
  entries :: "(int \<times> row) list"
  block_interval :: real

definition empty_frame :: dataframe where
  "empty_frame = \<lparr>entries = [], block_interval = 1000\<rparr>"

section \<open>Python and pandas primitives\<close>

text \<open>\<open>int(x)\<close> on a float truncates towards zero.\<close>

definition py_int :: "real \<Rightarrow> int" where
  "py_int x = (if 0 \<le> x then \<lfloor>x\<rfloor> else \<lceil>x\<rceil>)"

text \<open>\<open>round(x)\<close> on a float rounds to the nearest integer, halves to the even one.\<close>

definition py_round :: "real \<Rightarrow> int" where
  "py_round x =
     (let f = \<lfloor>x\<rfloor>; d = x - of_int f
      in if d < 1 / 2 then f else if 1 / 2 < d then f + 1
         else if even f then f else f + 1)"

subsection \<open>Float64 arithmetic\<close>

text \<open>
  The arithmetic of numpy's float64 (IEEE 754 binary64, round to nearest, ties to even):
  \<open>r64\<close> rounds the exact result to 53 significant bits, with gradual underflow below
  \<open>2^-1022\<close> and overflow to an infinity from \<open>2^1024\<close>. \<open>bit_length n\<close> is the number of
  binary digits of \<open>n\<close>, and \<open>binade a\<close> is the exponent \<open>e\<close> with \<open>2^e \<le> a < 2^(e+1)\<close>
  (lemma \<open>binade_bounds\<close>). numpy returns an infinity or NaN where Python's own floats
  raise.
\<close>

fun bit_length :: "nat \<Rightarrow> nat" where
  "bit_length n = (if n = 0 then 0 else Suc (bit_length (n div 2)))"

declare bit_length.simps [simp del]

definition pow2 :: "int \<Rightarrow> real" where
  "pow2 k = (if 0 \<le> k then 2 ^ nat k else 1 / 2 ^ nat (- k))"

definition binade :: "real \<Rightarrow> int" where
  "binade a =
     (if 1 \<le> a then int (bit_length (nat \<lfloor>a\<rfloor>)) - 1
      else - int (bit_length (nat (\<lceil>1 / a\<rceil> - 1))))"

definition r64 :: "real \<Rightarrow> f64" where
  "r64 x =
     (if x = 0 then Num 0
      else
        let a = \<bar>x\<bar>;
            e = max (binade a) (- 1022);
            q = pow2 (e - 52);
            v = of_int (py_round (a / q)) * q
        in if pow2 1024 \<le> v then (if 0 < x then PInf else NInf)
           else Num (if 0 < x then v else - v))"

fun fneg :: "f64 \<Rightarrow> f64" where
  "fneg (Num x) = Num (- x)"
| "fneg PInf = NInf"
| "fneg NInf = PInf"
| "fneg NaN = NaN"

fun fadd :: "f64 \<Rightarrow> f64 \<Rightarrow> f64" where
  "fadd (Num x) (Num y) = r64 (x + y)"
| "fadd NaN y = NaN"
| "fadd x NaN = NaN"
| "fadd PInf NInf = NaN"
| "fadd NInf PInf = NaN"
| "fadd PInf y = PInf"
| "fadd x PInf = PInf"
| "fadd NInf y = NInf"
| "fadd x NInf = NInf"

definition fsub :: "f64 \<Rightarrow> f64 \<Rightarrow> f64" where
  "fsub x y = fadd x (fneg y)"

fun fmul :: "f64 \<Rightarrow> f64 \<Rightarrow> f64" where
  "fmul (Num x) (Num y) = r64 (x * y)"
| "fmul NaN y = NaN"
| "fmul x NaN = NaN"
| "fmul (Num x) y = (if x = 0 then NaN else if 0 < x then y else fneg y)"
| "fmul x (Num y) = (if y = 0 then NaN else if 0 < y then x else fneg x)"
| "fmul x y = (if x = y then PInf else NInf)"

fun fdiv :: "f64 \<Rightarrow> f64 \<Rightarrow> f64" where
  "fdiv (Num x) (Num y) =
     (if y = 0 then (if x = 0 then NaN else if 0 < x then PInf else NInf) else r64 (x / y))"
| "fdiv NaN y = NaN"
| "fdiv x NaN = NaN"
| "fdiv (Num x) y = Num 0"
| "fdiv x (Num y) = (if 0 \<le> y then x else fneg x)"
| "fdiv x y = NaN"

subsection \<open>Frames\<close>

definition len :: "dataframe \<Rightarrow> int" where
  "len data = int (length (entries data))"

text \<open>
  \<open>data.iloc[i]\<close>: the entry at position \<open>i\<close>, a negative \<open>i\<close> counting from the end;
  \<open>None\<close> is the IndexError.
\<close>

definition iloc :: "dataframe \<Rightarrow> int \<Rightarrow> (int \<times> row) option" where
  "iloc data i =
     (let n = len data; j = (if i < 0 then n + i else i)
      in if 0 \<le> j \<and> j < n then Some (entries data ! nat j) else None)"

text \<open>\<open>data.iloc[s:e]\<close> with Python's slice rules (negative bounds count from the end).\<close>

definition slice_bound :: "int \<Rightarrow> int \<Rightarrow> int" where
  "slice_bound n i = (if i < 0 then max 0 (n + i) else min n i)"

definition iloc_slice :: "'a list \<Rightarrow> int \<Rightarrow> int \<Rightarrow> 'a list" where
  "iloc_slice xs s e =
     (let n = int (length xs); s' = slice_bound n s; e' = slice_bound n e
      in take (nat (e' - s')) (drop (nat s') xs))"

text \<open>
  \<open>data.iloc[::n]\<close>: the entries at positions 0, n, 2n, ... (\<open>k\<close> counts the entries
  still to skip).
\<close>

fun iloc_step :: "nat \<Rightarrow> nat \<Rightarrow> 'a list \<Rightarrow> 'a list" where
  "iloc_step n k [] = []"
| "iloc_step n k (x # xs) =
     (if k = 0 then x # iloc_step n (n - 1) xs else iloc_step n (k - 1) xs)"

text \<open>
  \<open>data.loc[l]\<close>: the row with index label \<open>l\<close>; \<open>None\<close> is the KeyError. The labels
  of every frame built below are distinct.
\<close>

definition loc :: "dataframe \<Rightarrow> int \<Rightarrow> row option" where
  "loc data l = map_of (entries data) l"

text \<open>\<open>row[column]\<close>; \<open>None\<close> is the KeyError.\<close>

definition cell :: "row \<Rightarrow> string \<Rightarrow> f64 option" where
  "cell r c = (if c = ''block'' then Some (Num (block r)) else map_of (vals r) c)"

text \<open>
  \<open>s.idxmin()\<close>: the label of the first minimum of a labelled series; \<open>None\<close> is the
  ValueError on an empty series.
\<close>

fun idxmin_from :: "int \<times> real \<Rightarrow> (int \<times> real) list \<Rightarrow> int" where
  "idxmin_from best [] = fst best"
| "idxmin_from best (x # xs) = idxmin_from (if snd x < snd best then x else best) xs"

definition idxmin :: "(int \<times> real) list \<Rightarrow> int option" where
  "idxmin xs = (case xs of [] \<Rightarrow> None | x # rest \<Rightarrow> Some (idxmin_from x rest))"

text \<open>
  \<open>s.idxmax()\<close> on a boolean series: the label of the first True, and the first label
  when there is none.
\<close>

definition idxmax :: "(int \<times> bool) list \<Rightarrow> int option" where
  "idxmax xs =
     (case xs of [] \<Rightarrow> None
      | x # rest \<Rightarrow> (case filter snd xs of [] \<Rightarrow> Some (fst x) | y # ys \<Rightarrow> Some (fst y)))"

text \<open>\<open>(data['block'] - current_block).abs()\<close> and \<open>data['block'] <= current_block\<close>.\<close>

definition abs_dist :: "(int \<times> row) list \<Rightarrow> real \<Rightarrow> (int \<times> real) list" where
  "abs_dist es t = map (\<lambda>e. (fst e, \<bar>block (snd e) - t\<bar>)) es"

definition le_matches :: "(int \<times> row) list \<Rightarrow> real \<Rightarrow> (int \<times> bool) list" where
  "le_matches es t = map (\<lambda>e. (fst e, block (snd e) \<le> t)) es"

text \<open>\<open>s.diff().dropna()\<close>: the differences of consecutive values.\<close>

definition diff :: "real list \<Rightarrow> real list" where
  "diff xs = map (\<lambda>p. snd p - fst p) (zip xs (tl xs))"

text \<open>
  \<open>s.mode().iloc[0]\<close>: the most frequent value, the smallest one among several;
  \<open>None\<close> is the IndexError on an empty series.
\<close>

definition mode_first :: "real list \<Rightarrow> real option" where
  "mode_first xs =
     (let top = fold max (map (count_list xs) xs) 0
      in case filter (\<lambda>x. count_list xs x = top) xs of
           [] \<Rightarrow> None
         | y # ys \<Rightarrow> Some (fold min ys y))"

text \<open>\<open>data[c] = v\<close> for one row: the column is overwritten in place, or appended.\<close>

definition set_col :: "string \<Rightarrow> f64 \<Rightarrow> (string \<times> f64) list \<Rightarrow> (string \<times> f64) list" where
  "set_col c v kvs =
     (if c \<in> set (map fst kvs) then map (\<lambda>kv. if fst kv = c then (c, v) else kv) kvs
      else kvs @ [(c, v)])"

text \<open>The RangeIndex 0, 1, ... that \<open>read_csv\<close> and \<open>reset_index(drop=True)\<close> assign.\<close>

definition range_index :: "row list \<Rightarrow> (int \<times> row) list" where
  "range_index rs = zip (map int [0..<length rs]) rs"

section \<open>data_processor.py\<close>

subsection \<open>load_data\<close>

text \<open>
  Lines 52-58 for one row: the \<open>day\<close> column and the net flow column. \<open>None\<close> is the
  KeyError of a missing flow column.
\<close>

definition add_derived :: "row \<Rightarrow> row option" where
  "add_derived r =
     (let r1 = r\<lparr>vals := set_col ''day'' (Num (of_int \<lfloor>block r / of_int BLOCKS_PER_DAY\<rfloor>))
                          (vals r)\<rparr>
      in case (map_of (vals r1) ''AlphaPoints_per_block_in'',
               map_of (vals r1) ''AlphaPoints_per_block_out'') of
           (Some a_in, Some a_out) \<Rightarrow>
             Some (r1\<lparr>vals := set_col ''net_alpha_points_flow'' (fsub a_in a_out) (vals r1)\<rparr>)
         | _ \<Rightarrow> None)"

text \<open>
  \<open>load_data\<close> from the table that \<open>read_csv\<close> returned (the rows in file order; reading
  the file is outside the model). Every exception ends in the empty frame of lines 85-94.
  \<open>sort_values\<close> is taken as stable; pandas leaves the order of rows with equal blocks
  open.
\<close>

definition load_data :: "row list \<Rightarrow> dataframe" where
  "load_data raw =
     (case those (map add_derived raw) of
        None \<Rightarrow> empty_frame
      | Some rs \<Rightarrow>
          let data = range_index rs
          in if 1 < length data then
               let sorted_data = sort_key (\<lambda>e. block (snd e)) data;
                   block_intervals = diff (map (\<lambda>e. block (snd e)) sorted_data)
               in if 0 < length block_intervals then
                    (case mode_first block_intervals of
                       None \<Rightarrow> empty_frame
                     | Some most_common_interval \<Rightarrow>
                         \<lparr>entries = sorted_data, block_interval = most_common_interval\<rparr>)
                  else \<lparr>entries = sorted_data, block_interval = 1000\<rparr>
             else \<lparr>entries = data, block_interval = 1000\<rparr>)"

subsection \<open>get_frame_data\<close>

text \<open>
  Lines 106-111: the approximate index, within the bounds of the frame. Every exception
  inside the \<open>try\<close> of \<open>get_frame_data\<close> ends in \<open>pd.Series()\<close>: the division by a zero
  interval (\<open>int\<close> of the quotient raises), an \<open>idxmin\<close> of nothing, a label that
  \<open>data.loc\<close> does not find.
\<close>

definition approx_index :: "dataframe \<Rightarrow> real \<Rightarrow> int" where
  "approx_index data current_block =
     max 0 (min (py_int (current_block / block_interval data)) (len data - 1))"

definition get_frame_data :: "dataframe \<Rightarrow> real \<Rightarrow> series" where
  "get_frame_data data current_block =
     (if len data = 0 then Empty_Series
      else if block_interval data = 0 then Empty_Series
      else
        let approx_idx = approx_index data current_block
        in case iloc data approx_idx of
             None \<Rightarrow> Empty_Series
           | Some e \<Rightarrow>
               let idx =
                 (if block_interval data * 2 < \<bar>block (snd e) - current_block\<bar>
                  then idxmin (abs_dist (entries data) current_block)
                  else
                    let start_idx = max 0 (approx_idx - 2);
                        end_idx = min (len data) (approx_idx + 3)
                    in map_option (\<lambda>l. start_idx + l)
                         (idxmin (abs_dist (iloc_slice (entries data) start_idx end_idx) current_block)))
               in (case idx of
                     None \<Rightarrow> Empty_Series
                   | Some i \<Rightarrow> (case loc data i of None \<Rightarrow> Empty_Series | Some r \<Rightarrow> Series r)))"

subsection \<open>interpolate_data\<close>

text \<open>
  Lines 141-186: the search for \<open>idx_before\<close> and \<open>idx_after\<close>. \<open>None\<close> is an
  exception (the division by a zero interval).
\<close>

definition bracket_search :: "dataframe \<Rightarrow> real \<Rightarrow> (int \<times> int) option" where
  "bracket_search data current_block =
     (if block_interval data = 0 then None
      else
        let n = len data;
            a0 = py_int (current_block / block_interval data);
            a1 = (if n \<le> a0 then n - 1 else a0);
            approx_idx_before = max 0 a1
        in case iloc data approx_idx_before of
             None \<Rightarrow> None
           | Some e \<Rightarrow>
               let actual_before_block = block (snd e);
                   idx_before =
                     (if current_block < actual_before_block then
                        let search_start = max 0 (approx_idx_before - 5);
                            search_end = approx_idx_before;
                            search_subset = iloc_slice (entries data) search_start search_end
                        in if 0 < length search_subset
                           then map_option (\<lambda>l. search_start + l)
                                  (idxmax (rev (le_matches search_subset current_block)))
                           else Some 0
                      else if actual_before_block < current_block then
                        (if approx_idx_before + 1 < n \<and>
                            (case iloc data (approx_idx_before + 1) of
                               None \<Rightarrow> False
                             | Some e' \<Rightarrow> current_block < block (snd e'))
                         then Some approx_idx_before
                         else
                           let search_start = approx_idx_before;
                               search_end = min n (approx_idx_before + 5);
                               search_subset = iloc_slice (entries data) search_start search_end;
                               matches = le_matches search_subset current_block
                           in if list_ex snd matches
                              then map_option (\<lambda>l. search_start + l) (idxmax (rev matches))
                              else Some (min (n - 2) search_start))
                      else Some approx_idx_before)
               in map_option (\<lambda>i. (i, min (n - 1) (i + 1))) idx_before)"

text \<open>
  Lines 216-218 for one column of \<open>before_row\<close>, in float64 arithmetic: \<open>None\<close> is the
  KeyError of a column that \<open>after_row\<close> does not have.
\<close>

definition blend_cell :: "f64 \<Rightarrow> row \<Rightarrow> string \<times> f64 \<Rightarrow> (string \<times> f64) option" where
  "blend_cell factor after_row cv =
     (case cell after_row (fst cv) of
        None \<Rightarrow> None
      | Some va \<Rightarrow> Some (fst cv, fadd (snd cv) (fmul factor (fsub va (snd cv)))))"

text \<open>The columns that are blended: every column except \<open>block\<close> and \<open>day\<close>.\<close>

definition blended_fields :: "row \<Rightarrow> (string \<times> f64) list" where
  "blended_fields r = filter (\<lambda>cv. fst cv \<noteq> ''block'' \<and> fst cv \<noteq> ''day'') (vals r)"

text \<open>
  Lines 202-208: the interpolation factor, a quotient of float64 differences, and 0 for
  two equal blocks.
\<close>

definition interp_factor :: "real \<Rightarrow> real \<Rightarrow> real \<Rightarrow> f64" where
  "interp_factor block_before block_after current_block =
     (if block_after = block_before then Num 0
      else fdiv (fsub (Num current_block) (Num block_before))
                (fsub (Num block_after) (Num block_before)))"

text \<open>
  Lines 196-223: the synthesized row between two rows of the frame. The floor division
  of line 221 returns the floor of the exact quotient (Python derives it from the exact
  remainder), an integer far below \<open>2^53\<close>.
\<close>

definition interp_row :: "row \<Rightarrow> row \<Rightarrow> real \<Rightarrow> row option" where
  "interp_row before_row after_row current_block =
     (let factor = interp_factor (block before_row) (block after_row) current_block
      in case those (map (blend_cell factor after_row) (blended_fields before_row)) of
           None \<Rightarrow> None
         | Some cols \<Rightarrow>
             Some \<lparr>block = current_block,
                   vals = cols @ [(''day'', Num (of_int \<lfloor>current_block / of_int BLOCKS_PER_DAY\<rfloor>))]\<rparr>)"

text \<open>The body of the \<open>try\<close>; \<open>None\<close> is an exception.\<close>

definition interpolate_try :: "dataframe \<Rightarrow> real \<Rightarrow> series option" where
  "interpolate_try data current_block =
     (if len data \<le> 1 then
        (if len data = 0 then Some Empty_Series
         else map_option (\<lambda>e. Series (snd e)) (iloc data 0))
      else
        case bracket_search data current_block of
          None \<Rightarrow> None
        | Some (idx_before, idx_after) \<Rightarrow>
            if idx_before < 0 then map_option (\<lambda>e. Series (snd e)) (iloc data 0)
            else if len data \<le> idx_after then map_option (\<lambda>e. Series (snd e)) (iloc data (- 1))
            else
              (case iloc data idx_before of
                 None \<Rightarrow> None
               | Some b \<Rightarrow>
                   (case iloc data idx_after of
                      None \<Rightarrow> None
                    | Some a \<Rightarrow> map_option Series (interp_row (snd b) (snd a) current_block))))"

definition interpolate_data :: "dataframe \<Rightarrow> real \<Rightarrow> series" where
  "interpolate_data data current_block =
     (case interpolate_try data current_block of
        Some s \<Rightarrow> s
      | None \<Rightarrow> get_frame_data data current_block)"

section \<open>main.py, lines 125-140\<close>


section \<open>visualizer.py\<close>

record marker =
  marker_block :: real
  marker_value :: f64

record chart_data =
  window_data :: "(int \<times> row) list"
  start_block :: real
  end_block :: real
  current_value :: "marker option"

text \<open>\<open>find_current_value\<close>: every exception inside the \<open>try\<close> ends in \<open>None\<close>.\<close>

definition find_current_value :: "dataframe \<Rightarrow> real \<Rightarrow> string \<Rightarrow> marker option" where
  "find_current_value data_slice current_block column =
     (if block_interval data_slice = 0 then None
      else
        let guess = min (len data_slice - 1)
                      (max 0 (py_round (current_block / block_interval data_slice)))
        in case iloc data_slice guess of
             None \<Rightarrow> None
           | Some e \<Rightarrow>
               let closest_idx =
                 (if block_interval data_slice * 2 < \<bar>block (snd e) - current_block\<bar>
                  then idxmin (abs_dist (entries data_slice) current_block)
                  else Some guess)
               in (case closest_idx of
                     None \<Rightarrow> None
                   | Some i \<Rightarrow>
                       (case iloc data_slice i of
                          None \<Rightarrow> None
                        | Some e' \<Rightarrow>
                            (case cell (snd e') column of
                               None \<Rightarrow> None
                             | Some v \<Rightarrow> Some \<lparr>marker_block = block (snd e'), marker_value = v\<rparr>))))"

text \<open>Lines 123-126: the bounds of the window.\<close>

definition window_start :: "real \<Rightarrow> real" where
  "window_start current_block = max 0 (current_block - of_int (CHART_WINDOW_SIZE div 2))"

definition window_end :: "real \<Rightarrow> real \<Rightarrow> real" where
  "window_end current_block max_block =
     min max_block (current_block + of_int (CHART_WINDOW_SIZE div 2))"

text \<open>
  Lines 130-139: the filtered window. \<open>None\<close> is the exception of the division by a zero
  interval, which \<open>optimize_chart_data\<close> does not catch.
\<close>

definition filtered_window :: "dataframe \<Rightarrow> real \<Rightarrow> real \<Rightarrow> (int \<times> row) list option" where
  "filtered_window data_slice current_block max_block =
     (if block_interval data_slice = 0 then None
      else
        let lo = window_start current_block;
            hi = window_end current_block max_block;
            start_idx = max 0 (py_int (lo / block_interval data_slice) - 1);
            end_idx = min (len data_slice) (py_int (hi / block_interval data_slice) + 2);
            data_subset = iloc_slice (entries data_slice) start_idx end_idx
        in Some (filter (\<lambda>e. lo \<le> block (snd e) \<and> block (snd e) \<le> hi) data_subset))"

text \<open>Lines 141-146: the stride \<open>n\<close> is at least 1 whenever it is computed.\<close>

definition downsample :: "'a list \<Rightarrow> 'a list" where
  "downsample window =
     (if MAX_DATA_POINTS_PER_CHART < length window
      then iloc_step (length window div MAX_DATA_POINTS_PER_CHART) 0 window
      else window)"

definition optimize_chart_data ::
    "dataframe \<Rightarrow> real \<Rightarrow> real \<Rightarrow> string \<Rightarrow> chart_data option" where
  "optimize_chart_data data_slice current_block max_block chart_column =
     (case filtered_window data_slice current_block max_block of
        None \<Rightarrow> None
      | Some window \<Rightarrow>
          Some \<lparr>window_data = downsample window,
                start_block = window_start current_block,
                end_block = window_end current_block max_block,
                current_value = find_current_value data_slice current_block chart_column\<rparr>)"

section \<open>The exhaustive scan of the specification\<close>

text \<open>
  The reference of the refinement claim, written from the specification and not from the
  code: one linear scan over the rows for the least \<open>|block - target|\<close>, a tie going to
  the earlier row; the empty series for no rows.
\<close>

fun nearest_from :: "row \<Rightarrow> row list \<Rightarrow> real \<Rightarrow> row" where
  "nearest_from best [] t = best"
| "nearest_from best (r # rs) t =
     nearest_from (if \<bar>block r - t\<bar> < \<bar>block best - t\<bar> then r else best) rs t"

definition exhaustive_nearest :: "row list \<Rightarrow> real \<Rightarrow> series" where
  "exhaustive_nearest rs t =
     (case rs of [] \<Rightarrow> Empty_Series | r # rest \<Rightarrow> Series (nearest_from r rest t))"

section \<open>Conditions on the data\<close>

text \<open>
  Two cells of one column, of \<open>before_row\<close> and of \<open>after_row\<close>. \<open>finite_step\<close>: both
  are finite, the first is a float64 number and their float64 difference is finite.
  \<open>exact_step\<close>: both are finite, the second is a float64 number and their difference is
  a float64 number, so that the subtraction of line 218 does not round.
\<close>

definition finite_step :: "f64 \<Rightarrow> f64 \<Rightarrow> bool" where
  "finite_step vb va =
     (case (vb, va) of
        (Num x, Num y) \<Rightarrow> r64 x = Num x \<and> (case r64 (y - x) of Num d \<Rightarrow> True | _ \<Rightarrow> False)
      | _ \<Rightarrow> False)"

definition exact_step :: "f64 \<Rightarrow> f64 \<Rightarrow> bool" where
  "exact_step vb va =
     (case (vb, va) of
        (Num x, Num y) \<Rightarrow> r64 y = Num y \<and> r64 (y - x) = Num (y - x)
      | _ \<Rightarrow> False)"

text \<open>
  Lines 146-151: the approximate index of the bracket search, after clamping; and the
  block of the row at a position.
\<close>

definition approx_before :: "dataframe \<Rightarrow> real \<Rightarrow> int" where
  "approx_before data current_block =
     (let n = len data; a0 = py_int (current_block / block_interval data)
      in max 0 (if n \<le> a0 then n - 1 else a0))"

definition block_at :: "dataframe \<Rightarrow> int \<Rightarrow> real" where
  "block_at data i = block (snd (entries data ! nat i))"

text \<open>The first five rows carry their positions as labels (as after line 128 of main.py).\<close>

definition first_labels :: "dataframe \<Rightarrow> bool" where
  "first_labels data =
     (map fst (take 5 (entries data)) = map int [0..<min 5 (length (entries data))])"

text \<open>
  The targets that the search of lines 153-183 reaches. With \<open>a\<close> the approximate index:
  the row at \<open>a\<close> is at the target; or it is before the target and the row at \<open>a + 1\<close> is
  after it (line 169); or the window that is searched starts at position 0 and its rows
  carry their positions as labels, which is the backward window (lines 157-164) for
  \<open>a \<le> 5\<close> and the forward window (lines 173-180) for \<open>a = 0\<close>, the latter with the
  target not after the row at position 5, the first one past the window.
\<close>

definition window_reach :: "dataframe \<Rightarrow> real \<Rightarrow> bool" where
  "window_reach data current_block =
     (let a = approx_before data current_block; b = block_at data a
      in if current_block < b then a \<le> 5 \<and> first_labels data
         else if b < current_block then
           (a + 1 < len data \<and> current_block < block_at data (a + 1))
           \<or> (a = 0 \<and> first_labels data
               \<and> (len data \<le> 5 \<or> current_block \<le> block_at data 5))
         else True)"

section \<open>Test data\<close>

text \<open>A row of the data file with one metric \<open>x\<close> and the two flow columns.\<close>

definition raw_row :: "real \<Rightarrow> real \<Rightarrow> row" where
  "raw_row b x =
     \<lparr>block = b,
      vals = [(''x'', Num x), (''AlphaPoints_per_block_in'', Num 0),
              (''AlphaPoints_per_block_out'', Num 0)]\<rparr>"

text \<open>The same row after \<open>load_data\<close>, with its \<open>day\<close> and its net flow.\<close>

definition loaded_row :: "real \<Rightarrow> real \<Rightarrow> real \<Rightarrow> row" where
  "loaded_row b x d =
     \<lparr>block = b,
      vals = [(''x'', Num x), (''AlphaPoints_per_block_in'', Num 0),
              (''AlphaPoints_per_block_out'', Num 0), (''day'', Num d),
              (''net_alpha_points_flow'', Num 0)]\<rparr>"

text \<open>The scenario of the specification: blocks 0, 1000, 2000, 3000 with x = 1, 2, 3, 4.\<close>

definition grid4_raw :: "row list" where
  "grid4_raw = [raw_row 0 1, raw_row 1000 2, raw_row 2000 3, raw_row 3000 4]"

text \<open>The frame that \<open>load_data\<close> builds from it (lemma \<open>load_grid4\<close>).\<close>

definition grid4 :: dataframe where
  "grid4 =
     \<lparr>entries = [(0, loaded_row 0 1 0), (1, loaded_row 1000 2 0), (2, loaded_row 2000 3 0),
                 (3, loaded_row 3000 4 0)],
      block_interval = 1000\<rparr>"

text \<open>A frame of 41 rows at the blocks 0, 1, ..., 40, with the interval 1.\<close>

definition frame41 :: dataframe where
  "frame41 =
     \<lparr>entries = map (\<lambda>i. (int i, loaded_row (real i) 0 0)) [0..<41], block_interval = 1\<rparr>"



text \<open>
  A data file with four rows close together before the regular spacing of 100, and the
  frame that \<open>load_data\<close> builds from it.
\<close>

definition cluster_raw :: "row list" where
  "cluster_raw = [raw_row 0 1, raw_row 1 2, raw_row 3 3, raw_row 6 4, raw_row 100 5,
                  raw_row 200 6, raw_row 300 7]"

definition cluster_loaded :: dataframe where
  "cluster_loaded =
     \<lparr>entries = [(0, loaded_row 0 1 0), (1, loaded_row 1 2 0), (2, loaded_row 3 3 0),
                 (3, loaded_row 6 4 0), (4, loaded_row 100 5 0), (5, loaded_row 200 6 0),
                 (6, loaded_row 300 7 0)],
      block_interval = 100\<rparr>"

text \<open>
  A data file with six rows close together before the regular spacing of 100, and a file
  with one half-interval step near the end, each with the frame that \<open>load_data\<close> builds.
\<close>

definition skew_raw :: "row list" where
  "skew_raw = [raw_row 0 1, raw_row 1 2, raw_row 3 3, raw_row 6 4, raw_row 10 5, raw_row 15 6,
               raw_row 100 7, raw_row 200 8, raw_row 300 9]"

definition skew_loaded :: dataframe where
  "skew_loaded =
     \<lparr>entries = [(0, loaded_row 0 1 0), (1, loaded_row 1 2 0), (2, loaded_row 3 3 0),
                 (3, loaded_row 6 4 0), (4, loaded_row 10 5 0), (5, loaded_row 15 6 0),
                 (6, loaded_row 100 7 0), (7, loaded_row 200 8 0), (8, loaded_row 300 9 0)],
      block_interval = 100\<rparr>"

definition gap_raw :: "row list" where
  "gap_raw = [raw_row 0 1, raw_row 1000 2, raw_row 2000 3, raw_row 3000 4, raw_row 3500 5,
              raw_row 4000 6]"

definition gap_loaded :: dataframe where
  "gap_loaded =
     \<lparr>entries = [(0, loaded_row 0 1 0), (1, loaded_row 1000 2 0), (2, loaded_row 2000 3 0),
                 (3, loaded_row 3000 4 0), (4, loaded_row 3500 5 0), (5, loaded_row 4000 6 0)],
      block_interval = 1000\<rparr>"

text \<open>A data file with two rows of the same block, and the frame that \<open>load_data\<close> builds.\<close>

definition dup_raw :: "row list" where
  "dup_raw = [raw_row 0 0, raw_row 5 1, raw_row 5 2, raw_row 10 3]"

definition dup_loaded :: dataframe where
  "dup_loaded =
     \<lparr>entries = [(0, loaded_row 0 0 0), (1, loaded_row 5 1 0), (2, loaded_row 5 2 0),
                 (3, loaded_row 10 3 0)],
      block_interval = 5\<rparr>"

text \<open>
  A data file with one long step before the regular spacing of 1000, and the frame that
  \<open>load_data\<close> builds from it.
\<close>

definition sparse_raw :: "row list" where
  "sparse_raw = [raw_row 0 1, raw_row 5000 2, raw_row 6000 3, raw_row 7000 4]"

definition sparse_loaded :: dataframe where
  "sparse_loaded =
     \<lparr>entries = [(0, loaded_row 0 1 0), (1, loaded_row 5000 2 0), (2, loaded_row 6000 3 0),
                 (3, loaded_row 7000 4 0)],
      block_interval = 1000\<rparr>"

text \<open>The float64 number nearest to 0.1 (lemma \<open>r64_tenth\<close>), the value of the literal \<open>0.1\<close>.\<close>

definition tenth :: real where
  "tenth = 3602879701896397 / 36028797018963968"

section \<open>Float64 rounding\<close>

text \<open>\<open>binade a\<close> is the binary exponent of a positive \<open>a\<close>.\<close>

lemma bit_length_bounds:
  "0 < n \<Longrightarrow> 2 ^ (bit_length n - 1) \<le> n \<and> n < 2 ^ bit_length n"
proof (induction n rule: bit_length.induct)
  case (1 n)
  show ?case
  proof (cases "n div 2 = 0")
    case True
    with 1 have "n = 1" by (simp add: div_eq_0_iff) 
    then show ?thesis by (simp add: bit_length.simps)
  next
    case False
    with 1 have ih: "2 ^ (bit_length (n div 2) - 1) \<le> n div 2" "n div 2 < 2 ^ bit_length (n div 2)"
      by simp_all
    have bl: "bit_length n = Suc (bit_length (n div 2))"
      using 1(2) by (subst bit_length.simps) simp
    have pos: "0 < bit_length (n div 2)"
      using False by (subst bit_length.simps) simp
    have "(2 :: nat) ^ bit_length (n div 2) = 2 * 2 ^ (bit_length (n div 2) - 1)"
      using pos by (cases "bit_length (n div 2)") simp_all
    with ih(1) have "2 ^ bit_length (n div 2) \<le> 2 * (n div 2)" by simp
    also have "\<dots> \<le> n" by simp
    finally have lo: "2 ^ (bit_length n - 1) \<le> n" by (simp add: bl)
    have "n < 2 * (n div 2) + 2" by presburger
    also have "\<dots> \<le> 2 * 2 ^ bit_length (n div 2)" using ih(2) by simp
    finally have "n < 2 ^ bit_length n" by (simp add: bl)
    with lo show ?thesis by simp
  qed
qed

lemma real_pow2_le: "2 ^ k \<le> (n :: nat) \<Longrightarrow> (2 :: real) ^ k \<le> real n"
proof -
  assume "2 ^ k \<le> n"
  then have "real (2 ^ k) \<le> real n" by (rule of_nat_mono)
  then show ?thesis by simp
qed

lemma real_succ_le_pow2: "n + 1 \<le> 2 ^ k \<Longrightarrow> real n + 1 \<le> 2 ^ k"
proof -
  assume "n + 1 \<le> 2 ^ k"
  then have "real (n + 1) \<le> real (2 ^ k)" by (rule of_nat_mono)
  then show ?thesis by simp
qed

lemma binade_bounds:
  assumes "0 < a"
  shows "pow2 (binade a) \<le> a \<and> a < pow2 (binade a + 1)"
proof (cases "1 \<le> a")
  case True
  define n where "n = nat \<lfloor>a\<rfloor>"
  have fl: "real n = of_int \<lfloor>a\<rfloor>" using True by (simp add: n_def)
  have n0: "0 < n" using True by (simp add: n_def)
  have n1: "real n \<le> a" unfolding fl by (rule of_int_floor_le)
  have n2: "a < real n + 1" unfolding fl by linarith
  have b: "binade a = int (bit_length n) - 1" using True by (simp add: binade_def n_def)
  have p: "0 < bit_length n" using n0 by (subst bit_length.simps) simp
  from bit_length_bounds [OF n0]
  have lo: "2 ^ (bit_length n - 1) \<le> n" and hi: "n + 1 \<le> 2 ^ bit_length n" by simp_all
  have e1: "pow2 (binade a) = 2 ^ (bit_length n - 1)"
    using p by (simp add: b pow2_def nat_diff_distrib)
  have e2: "pow2 (binade a + 1) = 2 ^ bit_length n"
    by (simp add: b pow2_def)
  have A: "pow2 (binade a) \<le> a"
    unfolding e1 using real_pow2_le [OF lo] n1 by (rule order_trans)
  have B: "a < pow2 (binade a + 1)"
    unfolding e2 using n2 real_succ_le_pow2 [OF hi] by (rule less_le_trans)
  from A B show ?thesis ..
next
  case False
  define y where "y = 1 / a"
  define m where "m = nat (\<lceil>y\<rceil> - 1)"
  have y1: "1 < y" using False assms by (simp add: y_def)
  have cl: "real m = of_int \<lceil>y\<rceil> - 1" using y1 by (simp add: m_def)
  have m0: "0 < m" using y1 by (simp add: m_def less_ceiling_iff)
  have m1: "real m < y" unfolding cl by linarith
  have m2: "y \<le> real m + 1" unfolding cl by linarith
  have b: "binade a = - int (bit_length m)" using False by (simp add: binade_def m_def y_def)
  have p: "0 < bit_length m" using m0 by (subst bit_length.simps) simp
  from bit_length_bounds [OF m0]
  have lo: "2 ^ (bit_length m - 1) \<le> m" and hi: "m + 1 \<le> 2 ^ bit_length m" by simp_all
  note rlo = real_pow2_le [OF lo] and rhi = real_succ_le_pow2 [OF hi]
  have p1: "pow2 (binade a) = 1 / 2 ^ bit_length m"
    using p by (simp add: b pow2_def)
  have p2: "pow2 (binade a + 1) = 1 / 2 ^ (bit_length m - 1)"
  proof (cases "bit_length m = 1")
    case True
    then show ?thesis by (simp add: b pow2_def)
  next
    case False
    with p have "1 < bit_length m" by simp
    then have "nat (int (bit_length m) - 1) = bit_length m - 1" "\<not> int (bit_length m) \<le> 1"
      by simp_all
    then show ?thesis by (simp add: b pow2_def)
  qed
  have a: "a = 1 / y" using assms by (simp add: y_def)
  have y2: "y \<le> 2 ^ bit_length m" using m2 rhi by (rule order_trans)
  have y3: "2 ^ (bit_length m - 1) < y" using rlo m1 by (rule le_less_trans)
  have A: "1 / 2 ^ bit_length m \<le> 1 / y"
    using y2 y1 by (simp add: frac_le)
  have B: "1 / y < 1 / 2 ^ (bit_length m - 1)"
    using y3 by (simp add: frac_less2)
  have A': "pow2 (binade a) \<le> a" unfolding p1 using A by (simp only: a [symmetric])
  have B': "a < pow2 (binade a + 1)" unfolding p2 using B by (simp only: a [symmetric])
  from A' B' show ?thesis ..
qed

text \<open>The values of \<open>binade\<close> and \<open>r64\<close> that the examples below use.\<close>

lemma r64_zero: "r64 0 = Num 0"
  by (simp add: r64_def)

lemma fsub_zero: "fsub (Num 0) (Num 0) = Num 0"
  by (simp add: fsub_def r64_zero)

lemmas binade_eval = binade_def bit_length.simps

lemmas round_eval = r64_def pow2_def py_round_def Let_def

lemma binade_vals:
  "binade 1 = 0" "binade 2 = 1" "binade 3 = 1" "binade (1 / 2) = - 1" "binade (5 / 2) = 1"
  "binade 500 = 8" "binade 1000 = 9"
  by (simp_all add: binade_eval)

lemma r64_vals:
  "r64 1 = Num 1" "r64 2 = Num 2" "r64 3 = Num 3" "r64 (1 / 2) = Num (1 / 2)"
  "r64 (5 / 2) = Num (5 / 2)" "r64 500 = Num 500" "r64 1000 = Num 1000"
  by (simp_all add: round_eval binade_vals)

lemma binade_tenth:
  "binade (1 / 10) = - 4"
  "binade tenth = - 4"
  "binade (86469112845513523 / 36028797018963968) = 1"
  "binade (5404319552844595 / 2251799813685248) = 1"
  "binade (225179981368525 / 2251799813685248) = - 4"
  by (simp_all add: tenth_def binade_eval)

lemma r64_tenth:
  "r64 (1 / 10) = Num tenth"
  "r64 tenth = Num tenth"
  by (simp_all add: tenth_def round_eval binade_tenth [unfolded tenth_def])

lemma r64_tenth_step:
  "r64 (tenth - 5 / 2) = Num (- (5404319552844595 / 2251799813685248))"
  "r64 (- (5404319552844595 / 2251799813685248)) = Num (- (5404319552844595 / 2251799813685248))"
  "r64 (5 / 2 - 5404319552844595 / 2251799813685248) = Num (225179981368525 / 2251799813685248)"
  by (simp_all add: tenth_def round_eval binade_tenth [unfolded tenth_def])

lemma blend_tenth:
  "fadd (Num (5 / 2)) (fmul (Num 1) (fsub (Num tenth) (Num (5 / 2))))
     = Num (225179981368525 / 2251799813685248)"
proof -
  have a: "fsub (Num tenth) (Num (5 / 2)) = Num (- (5404319552844595 / 2251799813685248))"
    using r64_tenth_step(1) by (simp add: fsub_def)
  have b: "fmul (Num 1) (Num (- (5404319552844595 / 2251799813685248)))
             = Num (- (5404319552844595 / 2251799813685248))"
    using r64_tenth_step(2) by simp
  have c: "fadd (Num (5 / 2)) (Num (- (5404319552844595 / 2251799813685248)))
             = Num (225179981368525 / 2251799813685248)"
    using r64_tenth_step(3) by simp
  show ?thesis by (simp only: a b c)
qed

text \<open>A missing or infinite cell of \<open>after_row\<close> makes the blend NaN, also at factor 0.\<close>

lemma blend_cell_nan:
  "fadd (Num x) (fmul (Num 0) (fsub NaN (Num x))) = NaN"
  "fadd (Num x) (fmul (Num 0) (fsub PInf (Num x))) = NaN"
  by (simp_all add: fsub_def)

section \<open>Evaluation of the test data\<close>


lemmas load_eval = load_data_def add_derived_def raw_row_def set_col_def range_index_def
  BLOCKS_PER_DAY_def diff_def mode_first_def loaded_row_def fsub_zero

lemma load_grid4: "load_data grid4_raw = grid4"
  by (simp add: grid4_raw_def grid4_def load_eval)

lemma grid4_shape:
  "entries grid4 = [(0, loaded_row 0 1 0), (1, loaded_row 1000 2 0), (2, loaded_row 2000 3 0),
                    (3, loaded_row 3000 4 0)]"
  "block_interval grid4 = 1000"
  "len grid4 = 4"
  by (simp_all add: grid4_def len_def)

lemma load_nothing: "load_data [] = empty_frame"
  by (simp add: load_data_def range_index_def empty_frame_def)

lemma iloc_slice_nonneg:
  assumes "0 \<le> s" and "0 \<le> e"
  shows "iloc_slice xs s e = take (nat e - nat s) (drop (nat s) xs)"
proof (cases "int (length xs) \<le> s")
  case True
  then show ?thesis using assms by (simp add: iloc_slice_def slice_bound_def)
next
  case False
  then have s: "slice_bound (int (length xs)) s = s"
    using assms by (simp add: slice_bound_def)
  have e: "slice_bound (int (length xs)) e = min (int (length xs)) e"
    using assms by (simp add: slice_bound_def)
  have "take (nat (min (int (length xs)) e - s)) (drop (nat s) xs)
        = take (nat e - nat s) (drop (nat s) xs)"
  proof (cases "int (length xs) \<le> e")
    case True
    with False assms show ?thesis by (simp add: min_def) 
  next
    case False
    with assms show ?thesis by (simp add: min_def nat_diff_distrib')
  qed
  then show ?thesis by (simp add: iloc_slice_def s e Let_def)
qed

lemma half_window_size: "CHART_WINDOW_SIZE div 2 = 7500"
  by (simp add: CHART_WINDOW_SIZE_def)

lemma window_grid4:
  "filtered_window (load_data grid4_raw) 1500 3000 =
     Some [(0, loaded_row 0 1 0), (1, loaded_row 1000 2 0), (2, loaded_row 2000 3 0),
           (3, loaded_row 3000 4 0)]"
proof -
  have b: "window_start 1500 = 0" "window_end 1500 3000 = 3000"
    by (simp_all add: window_start_def window_end_def half_window_size)
  show ?thesis
    by (simp add: load_grid4 grid4_shape filtered_window_def b py_int_def iloc_slice_nonneg
        loaded_row_def)
qed

lemma window_grid4_late:
  "filtered_window (load_data grid4_raw) 9000 3000 =
     Some [(2, loaded_row 2000 3 0), (3, loaded_row 3000 4 0)]"
proof -
  have b: "window_start 9000 = 1500" "window_end 9000 3000 = 3000"
    by (simp_all add: window_start_def window_end_def half_window_size)
  show ?thesis
    by (simp add: load_grid4 grid4_shape filtered_window_def b py_int_def iloc_slice_nonneg
        loaded_row_def)
qed

lemma factor_grid4: "interp_factor 1000 2000 1500 = Num (1 / 2)"
  by (simp add: interp_factor_def fsub_def r64_vals)

lemmas interp_eval = interp_row_def blended_fields_def blend_cell_def cell_def loaded_row_def
  BLOCKS_PER_DAY_def fsub_def r64_zero r64_vals

lemma interp_grid4:
  "interp_row (loaded_row 1000 2 0) (loaded_row 2000 3 0) 1500 =
     Some \<lparr>block = 1500,
           vals = [(''x'', Num (5 / 2)), (''AlphaPoints_per_block_in'', Num 0),
                   (''AlphaPoints_per_block_out'', Num 0), (''net_alpha_points_flow'', Num 0),
                   (''day'', Num 0)]\<rparr>"
proof -
  have f: "interp_factor (block (loaded_row 1000 2 0)) (block (loaded_row 2000 3 0)) 1500
             = Num (1 / 2)"
    by (simp add: loaded_row_def factor_grid4)
  show ?thesis unfolding interp_row_def f by (simp add: interp_eval)
qed

lemma interpolate_grid4:
  "interpolate_data (load_data grid4_raw) 1500 =
     Series \<lparr>block = 1500,
           vals = [(''x'', Num (5 / 2)), (''AlphaPoints_per_block_in'', Num 0),
                   (''AlphaPoints_per_block_out'', Num 0), (''net_alpha_points_flow'', Num 0),
                   (''day'', Num 0)]\<rparr>"
proof -
  have "bracket_search grid4 1500 = Some (1, 2)"
    by (simp add: grid4_shape bracket_search_def py_int_def iloc_def loaded_row_def)
  then show ?thesis
    by (simp add: interpolate_data_def interpolate_try_def load_grid4 grid4_shape iloc_def
        interp_grid4)
qed

section \<open>The chart window\<close>

lemma iloc_step_first: "xs \<noteq> [] \<Longrightarrow> iloc_step n 0 xs \<noteq> [] \<and> hd (iloc_step n 0 xs) = hd xs"
  by (cases xs) simp_all

lemma downsample_first: "w \<noteq> [] \<Longrightarrow> downsample w \<noteq> [] \<and> hd (downsample w) = hd w"
  by (simp add: downsample_def iloc_step_first)

lemma downsample_Nil: "downsample [] = []"
  by (simp add: downsample_def)

lemma set_iloc_step: "set (iloc_step n k xs) \<subseteq> set xs"
  by (induction xs arbitrary: k) auto

lemma set_downsample: "set (downsample w) \<subseteq> set w"
  by (simp add: downsample_def set_iloc_step)

lemma filtered_window_bounds:
  "filtered_window d t m = Some w \<Longrightarrow> e \<in> set w \<Longrightarrow>
     window_start t \<le> block (snd e) \<and> block (snd e) \<le> window_end t m"
  by (auto simp: filtered_window_def Let_def split: if_splits)

lemma half_window: "real_of_int (CHART_WINDOW_SIZE div 2) = real_of_int CHART_WINDOW_SIZE / 2"
  by (simp add: CHART_WINDOW_SIZE_def)

text \<open>
  C7. Every row of the \<open>window_data\<close> that \<open>optimize_chart_data\<close> returns for the target
  \<open>t\<close> and the maximum block \<open>m\<close> has its block in the closed interval from
  \<open>max(0, t - W/2)\<close> to \<open>min(m, t + W/2)\<close>, with \<open>W = CHART_WINDOW_SIZE\<close>. This holds for
  every frame, sorted or not, and after the downsampling too.
\<close>

theorem window_rows_in_range:
  assumes "optimize_chart_data d t m c = Some res"
  shows "\<forall>e \<in> set (window_data res).
           max 0 (t - real_of_int CHART_WINDOW_SIZE / 2) \<le> block (snd e)
           \<and> block (snd e) \<le> min m (t + real_of_int CHART_WINDOW_SIZE / 2)"
proof
  fix e assume e: "e \<in> set (window_data res)"
  from assms obtain w where w: "filtered_window d t m = Some w"
    and r: "window_data res = downsample w"
    by (auto simp: optimize_chart_data_def split: option.splits)
  from e r set_downsample [of w] have "e \<in> set w" by auto
  from filtered_window_bounds [OF w this]
  show "max 0 (t - real_of_int CHART_WINDOW_SIZE / 2) \<le> block (snd e)
           \<and> block (snd e) \<le> min m (t + real_of_int CHART_WINDOW_SIZE / 2)"
    by (simp add: window_start_def window_end_def half_window)
qed

text \<open>
  At the target 9000 with maximum block 3000 the window of the four-row frame is
  [1500, 3000]; the row of block 2000 is in it.
\<close>

theorem window_rows_in_range_witness:
  "\<exists>res. optimize_chart_data (load_data grid4_raw) 9000 3000 ''x'' = Some res
     \<and> (2, loaded_row 2000 3 0) \<in> set (window_data res)
     \<and> max 0 (9000 - real_of_int CHART_WINDOW_SIZE / 2) \<le> block (loaded_row 2000 3 0)
     \<and> block (loaded_row 2000 3 0) \<le> min 3000 (9000 + real_of_int CHART_WINDOW_SIZE / 2)"
proof -
  let ?res = "\<lparr>window_data = [(2, loaded_row 2000 3 0), (3, loaded_row 3000 4 0)],
               start_block = window_start 9000, end_block = window_end 9000 3000,
               current_value = find_current_value (load_data grid4_raw) 9000 ''x''\<rparr>"
  have ev: "optimize_chart_data (load_data grid4_raw) 9000 3000 ''x'' = Some ?res"
    by (simp add: optimize_chart_data_def window_grid4_late downsample_def
        MAX_DATA_POINTS_PER_CHART_def)
  have "(2, loaded_row 2000 3 0) \<in> set (window_data ?res)" by simp
  with window_rows_in_range [OF ev] ev show ?thesis by fastforce
qed

text \<open>
  C10. Whenever the filtered window of \<open>optimize_chart_data\<close> is not empty, the returned
  \<open>window_data\<close> is not empty and starts with the first row of the filtered window.
\<close>

theorem downsample_keeps_first_row:
  assumes "filtered_window d t m = Some w" and "w \<noteq> []"
  shows "\<exists>res. optimize_chart_data d t m c = Some res \<and> window_data res \<noteq> []
           \<and> hd (window_data res) = hd w"
  using assms by (simp add: optimize_chart_data_def downsample_first)

theorem downsample_keeps_first_row_witness:
  "\<exists>res. optimize_chart_data (load_data grid4_raw) 1500 3000 ''x'' = Some res
      \<and> window_data res \<noteq> [] \<and> hd (window_data res) = (0, loaded_row 0 1 0)"
  using downsample_keeps_first_row [OF window_grid4, of "''x''"] by simp

section \<open>The empty dataset\<close>

lemma sort_key_Nil: "sort_key f xs = [] \<longleftrightarrow> xs = []"
  by (metis length_sort length_0_conv)

text \<open>Every frame without rows that \<open>load_data\<close> returns has the default interval.\<close>

lemma load_data_empty_interval:
  "entries (load_data raw) = [] \<Longrightarrow> block_interval (load_data raw) = 1000"
  by (auto simp: load_data_def empty_frame_def range_index_def Let_def sort_key_Nil
      split: option.splits if_splits)

lemma get_frame_data_no_rows: "entries d = [] \<Longrightarrow> get_frame_data d t = Empty_Series"
  by (simp add: get_frame_data_def len_def)

lemma find_current_value_no_rows: "entries d = [] \<Longrightarrow> find_current_value d t c = None"
  by (simp add: find_current_value_def len_def iloc_def Let_def)

lemma filtered_window_no_rows:
  "entries d = [] \<Longrightarrow> block_interval d \<noteq> 0 \<Longrightarrow> filtered_window d t m = Some []"
  by (simp add: filtered_window_def iloc_slice_def Let_def)

text \<open>
  C9. On a loaded dataset without rows, \<open>get_frame_data\<close> returns the empty series and
  \<open>optimize_chart_data\<close> returns a result (no exception) whose window is empty and whose
  marker is absent, for every target.
\<close>

theorem empty_dataset_results:
  assumes "entries (load_data raw) = []"
  shows "get_frame_data (load_data raw) t = Empty_Series
     \<and> optimize_chart_data (load_data raw) t m c =
         Some \<lparr>window_data = [], start_block = window_start t, end_block = window_end t m,
               current_value = None\<rparr>"
proof -
  have "block_interval (load_data raw) \<noteq> 0"
    using load_data_empty_interval [OF assms] by simp
  then show ?thesis
    using assms
    by (simp add: get_frame_data_no_rows find_current_value_no_rows filtered_window_no_rows
        optimize_chart_data_def downsample_Nil)
qed

theorem empty_dataset_results_witness:
  "entries (load_data []) = []
   \<and> get_frame_data (load_data []) 1500 = Empty_Series
   \<and> optimize_chart_data (load_data []) 1500 1 ''exchange_rate'' =
       Some \<lparr>window_data = [], start_block = 0, end_block = 1, current_value = None\<rparr>"
  using empty_dataset_results [of "[]" 1500 1 "''exchange_rate''"]
  by (simp add: load_nothing empty_frame_def window_start_def window_end_def CHART_WINDOW_SIZE_def)

section \<open>The synthesized row\<close>

lemma those_blend_keys:
  "those (map (blend_cell f a) xs) = Some cols \<Longrightarrow> map fst cols = map fst xs"
  by (induction xs arbitrary: cols) (auto simp: blend_cell_def split: option.splits)

lemma blended_fields_keys:
  "''day'' \<notin> set (map fst (blended_fields r))" "''block'' \<notin> set (map fst (blended_fields r))"
  by (auto simp: blended_fields_def)

lemma those_total: "\<forall>x \<in> set xs. g x \<noteq> None \<Longrightarrow> \<exists>ys. those (map g xs) = Some ys"
  by (induction xs) auto

lemma blend_cell_total:
  assumes "set (map fst (vals before_row)) \<subseteq> set (map fst (vals after_row))"
  shows "\<exists>cols. those (map (blend_cell f after_row) (blended_fields before_row)) = Some cols"
proof (rule those_total, rule ballI)
  fix cv assume "cv \<in> set (blended_fields before_row)"
  then have "fst cv \<in> set (map fst (vals before_row))" "fst cv \<noteq> ''block''"
    by (auto simp: blended_fields_def)
  with assms have "fst cv \<in> fst ` set (vals after_row)" by auto
  then have "map_of (vals after_row) (fst cv) \<noteq> None" by (simp add: map_of_eq_None_iff)
  with \<open>fst cv \<noteq> ''block''\<close> show "blend_cell f after_row cv \<noteq> None"
    by (auto simp: blend_cell_def cell_def)
qed

text \<open>
  C8. For two rows where every column of \<open>before_row\<close> is a column of \<open>after_row\<close> (as
  for two rows of one frame), \<open>interp_row\<close> returns a row at every position \<open>t\<close>,
  whatever the cells hold: its block is \<open>t\<close> and its day is \<open>floor (t / BLOCKS_PER_DAY)\<close>;
  neither is blended.
\<close>

theorem interp_row_block_and_day:
  assumes "set (map fst (vals before_row)) \<subseteq> set (map fst (vals after_row))"
  shows "\<exists>r. interp_row before_row after_row t = Some r \<and> block r = t
           \<and> cell r ''day'' = Some (Num (of_int \<lfloor>t / of_int BLOCKS_PER_DAY\<rfloor>))"
proof -
  from blend_cell_total [OF assms] obtain cols where
    cols: "those (map (blend_cell (interp_factor (block before_row) (block after_row) t) after_row)
              (blended_fields before_row)) = Some cols"
    by blast
  have "''day'' \<notin> set (map fst cols)"
    using those_blend_keys [OF cols] blended_fields_keys(1) [of before_row] by simp
  then have "map_of cols ''day'' = None"
    by (simp add: map_of_eq_None_iff)
  then show ?thesis
    by (simp add: interp_row_def cols cell_def map_add_def)
qed

theorem interp_row_block_and_day_witness:
  "set (map fst (vals (loaded_row 1000 2 0))) \<subseteq> set (map fst (vals (loaded_row 2000 3 0)))
   \<and> (\<exists>r. interp_row (loaded_row 1000 2 0) (loaded_row 2000 3 0) 1500 = Some r \<and> block r = 1500
          \<and> cell r ''day'' = Some (Num 0))"
proof -
  have h: "set (map fst (vals (loaded_row 1000 2 0))) \<subseteq> set (map fst (vals (loaded_row 2000 3 0)))"
    by (simp add: loaded_row_def)
  have "of_int \<lfloor>(1500 :: real) / of_int BLOCKS_PER_DAY\<rfloor> = (0 :: real)"
    by (simp add: BLOCKS_PER_DAY_def)
  with interp_row_block_and_day [OF h, of 1500] h show ?thesis by simp
qed

text \<open>The blend of all columns, and the two factors at which it returns one of the rows.\<close>

lemma blend_all:
  "map fst xs = map fst ys \<Longrightarrow> \<forall>y \<in> set ys. cell a (fst y) = Some (snd y) \<Longrightarrow>
   those (map (blend_cell f a) xs) =
     Some (map (\<lambda>p. (fst (fst p), fadd (snd (fst p)) (fmul f (fsub (snd (snd p)) (snd (fst p))))))
       (zip xs ys))"
proof (induction xs arbitrary: ys)
  case Nil
  then show ?case by simp
next
  case (Cons x xs)
  then obtain y ys' where ys: "ys = y # ys'" by (cases ys) auto
  with Cons.prems have k: "fst x = fst y" "map fst xs = map fst ys'"
    and c: "cell a (fst y) = Some (snd y)" "\<forall>y \<in> set ys'. cell a (fst y) = Some (snd y)"
    by auto
  from Cons.IH [OF k(2) c(2)] show ?case
    by (simp add: ys blend_cell_def k(1) c(1))
qed

lemma zip_blend_before:
  "map fst xs = map fst ys \<Longrightarrow> list_all2 R (map snd xs) (map snd ys) \<Longrightarrow>
   (\<And>vb va. R vb va \<Longrightarrow> fadd vb (fmul f (fsub va vb)) = vb) \<Longrightarrow>
   map (\<lambda>p. (fst (fst p), fadd (snd (fst p)) (fmul f (fsub (snd (snd p)) (snd (fst p))))))
     (zip xs ys) = (xs :: (string \<times> f64) list)"
proof (induction xs arbitrary: ys)
  case Nil
  then show ?case by simp
next
  case (Cons x xs)
  then obtain y ys' where ys: "ys = y # ys'" by (cases ys) auto
  with Cons.prems(1,2) have k: "map fst xs = map fst ys'"
    and r: "R (snd x) (snd y)" "list_all2 R (map snd xs) (map snd ys')"
    by auto
  from Cons.IH [OF k r(2) Cons.prems(3)] Cons.prems(3) [OF r(1)] show ?case
    by (simp add: ys prod_eq_iff)
qed

lemma zip_blend_after:
  "map fst xs = map fst ys \<Longrightarrow> list_all2 R (map snd xs) (map snd ys) \<Longrightarrow>
   (\<And>vb va. R vb va \<Longrightarrow> fadd vb (fmul f (fsub va vb)) = va) \<Longrightarrow>
   map (\<lambda>p. (fst (fst p), fadd (snd (fst p)) (fmul f (fsub (snd (snd p)) (snd (fst p))))))
     (zip xs ys) = (ys :: (string \<times> f64) list)"
proof (induction xs arbitrary: ys)
  case Nil
  then show ?case by simp
next
  case (Cons x xs)
  then obtain y ys' where ys: "ys = y # ys'" by (cases ys) auto
  with Cons.prems(1,2) have k: "fst x = fst y" "map fst xs = map fst ys'"
    and r: "R (snd x) (snd y)" "list_all2 R (map snd xs) (map snd ys')"
    by auto
  from Cons.IH [OF k(2) r(2) Cons.prems(3)] Cons.prems(3) [OF r(1)] show ?case
    by (simp add: ys prod_eq_iff k(1))
qed

lemma finite_step_blend:
  "finite_step vb va \<Longrightarrow> fadd vb (fmul (Num 0) (fsub va vb)) = vb"
  by (cases vb; cases va) (auto simp: finite_step_def fsub_def r64_zero split: f64.splits)

lemma exact_step_blend:
  "exact_step vb va \<Longrightarrow> fadd vb (fmul (Num 1) (fsub va vb)) = va"
  by (cases vb; cases va) (auto simp: exact_step_def fsub_def)

lemma blended_cells:
  assumes "distinct (map fst (vals r))"
  shows "\<forall>y \<in> set (blended_fields r). cell r (fst y) = Some (snd y)"
proof
  fix y assume y: "y \<in> set (blended_fields r)"
  then have "y \<in> set (vals r)" "fst y \<noteq> ''block''" by (auto simp: blended_fields_def)
  with assms have "map_of (vals r) (fst y) = Some (snd y)" by simp
  with \<open>fst y \<noteq> ''block''\<close> show "cell r (fst y) = Some (snd y)" by (simp add: cell_def)
qed

lemma filter_keys:
  "map fst xs = map fst ys \<Longrightarrow>
   map fst (filter (\<lambda>cv. fst cv \<noteq> ''block'' \<and> fst cv \<noteq> ''day'') xs) =
   map fst (filter (\<lambda>cv. fst cv \<noteq> ''block'' \<and> fst cv \<noteq> ''day'') (ys :: (string \<times> f64) list))"
proof (induction xs arbitrary: ys)
  case Nil
  then show ?case by simp
next
  case (Cons x xs)
  then obtain y ys' where "ys = y # ys'" by (cases ys) auto
  with Cons show ?case by auto
qed

lemma blended_keys_eq:
  "map fst (vals a) = map fst (vals b) \<Longrightarrow>
   map fst (blended_fields b) = map fst (blended_fields a)"
  unfolding blended_fields_def by (rule filter_keys [symmetric])

lemma blended_of_result:
  assumes "''day'' \<notin> set (map fst cols)" "''block'' \<notin> set (map fst cols)"
  shows "blended_fields \<lparr>block = t, vals = cols @ [(''day'', v)]\<rparr> = cols"
proof -
  have "filter (\<lambda>cv. fst cv \<noteq> ''block'' \<and> fst cv \<noteq> ''day'') cols = cols"
    using assms by (intro filter_True) force
  then show ?thesis by (simp add: blended_fields_def)
qed

lemma interp_row_blend:
  assumes cols: "map fst (vals after_row) = map fst (vals before_row)"
    and dist: "distinct (map fst (vals before_row))"
    and f: "interp_factor (block before_row) (block after_row) t = f"
    and z: "map (\<lambda>p. (fst (fst p), fadd (snd (fst p)) (fmul f (fsub (snd (snd p)) (snd (fst p))))))
              (zip (blended_fields before_row) (blended_fields after_row)) = blended_fields w"
  shows "\<exists>r. interp_row before_row after_row t = Some r \<and> blended_fields r = blended_fields w"
proof -
  have k: "map fst (blended_fields before_row) = map fst (blended_fields after_row)"
    by (rule blended_keys_eq) (rule cols)
  have d: "distinct (map fst (vals after_row))" using cols dist by simp
  have th: "those (map (blend_cell f after_row) (blended_fields before_row))
              = Some (blended_fields w)"
    using blend_all [OF k blended_cells [OF d], of f] z by simp
  have "map fst (blended_fields w) = map fst (blended_fields before_row)"
    by (rule those_blend_keys) (rule th)
  then have n: "''day'' \<notin> set (map fst (blended_fields w))"
      "''block'' \<notin> set (map fst (blended_fields w))"
    using blended_fields_keys [of before_row] by simp_all
  show ?thesis
    by (simp add: interp_row_def f th blended_of_result [OF n])
qed

lemma factor_at_before:
  assumes "r64 (ba - bb) = Num (ba - bb)"
  shows "interp_factor bb ba bb = Num 0"
  using assms by (simp add: interp_factor_def fsub_def r64_zero)

lemma factor_at_after:
  assumes "r64 (ba - bb) = Num (ba - bb)" "ba \<noteq> bb"
  shows "interp_factor bb ba ba = Num 1"
  using assms by (simp add: interp_factor_def fsub_def r64_vals)

lemma factor_equal_blocks: "interp_factor b b t = Num 0"
  by (simp add: interp_factor_def)

text \<open>
  C6, as amended. For two rows with the same columns, each once, whose blocks differ by a
  float64 number (as integer blocks do): when every blended cell of \<open>before_row\<close> is a
  float64 number with a finite float64 difference to the cell of \<open>after_row\<close>
  (\<open>finite_step\<close>), interpolating at the block of \<open>before_row\<close> yields the blended fields
  of \<open>before_row\<close> (factor 0); when the two blocks differ and every blended cell of
  \<open>after_row\<close> is a float64 number whose difference to the cell of \<open>before_row\<close> is
  computed without rounding (\<open>exact_step\<close>), interpolating at the block of \<open>after_row\<close>
  yields the blended fields of \<open>after_row\<close> (factor 1); and when the two blocks are equal,
  interpolating at any position yields the blended fields of \<open>before_row\<close>, under the
  condition of factor 0.
\<close>

theorem interp_row_endpoints:
  assumes cols: "map fst (vals after_row) = map fst (vals before_row)"
    and dist: "distinct (map fst (vals before_row))"
    and diff: "r64 (block after_row - block before_row) = Num (block after_row - block before_row)"
  shows "(list_all2 finite_step (map snd (blended_fields before_row))
            (map snd (blended_fields after_row)) \<longrightarrow>
          (\<exists>r. interp_row before_row after_row (block before_row) = Some r
              \<and> blended_fields r = blended_fields before_row))
       \<and> (block after_row \<noteq> block before_row
          \<and> list_all2 exact_step (map snd (blended_fields before_row))
              (map snd (blended_fields after_row)) \<longrightarrow>
          (\<exists>r. interp_row before_row after_row (block after_row) = Some r
              \<and> blended_fields r = blended_fields after_row))
       \<and> (block after_row = block before_row
          \<and> list_all2 finite_step (map snd (blended_fields before_row))
              (map snd (blended_fields after_row)) \<longrightarrow>
          (\<exists>r. interp_row before_row after_row t = Some r
              \<and> blended_fields r = blended_fields before_row))"
proof -
  have k: "map fst (blended_fields before_row) = map fst (blended_fields after_row)"
    by (rule blended_keys_eq) (rule cols)
  have a: "\<exists>r. interp_row before_row after_row (block before_row) = Some r
              \<and> blended_fields r = blended_fields before_row"
    if s: "list_all2 finite_step (map snd (blended_fields before_row))
            (map snd (blended_fields after_row))"
    by (rule interp_row_blend [OF cols dist factor_at_before [OF diff]])
       (rule zip_blend_before [OF k s finite_step_blend])
  have b: "\<exists>r. interp_row before_row after_row (block after_row) = Some r
              \<and> blended_fields r = blended_fields after_row"
    if n: "block after_row \<noteq> block before_row"
      and s: "list_all2 exact_step (map snd (blended_fields before_row))
            (map snd (blended_fields after_row))"
    by (rule interp_row_blend [OF cols dist factor_at_after [OF diff n]])
       (rule zip_blend_after [OF k s exact_step_blend])
  have c: "\<exists>r. interp_row before_row after_row t = Some r
              \<and> blended_fields r = blended_fields before_row"
    if e: "block after_row = block before_row"
      and s: "list_all2 finite_step (map snd (blended_fields before_row))
            (map snd (blended_fields after_row))"
  proof -
    have f: "interp_factor (block before_row) (block after_row) t = Num 0"
      by (simp add: e factor_equal_blocks)
    show ?thesis
      by (rule interp_row_blend [OF cols dist f])
         (rule zip_blend_before [OF k s finite_step_blend])
  qed
  from a b c show ?thesis by blast
qed

theorem interp_row_endpoints_witness:
  "map fst (vals (loaded_row 2000 3 0)) = map fst (vals (loaded_row 1000 2 0))
   \<and> distinct (map fst (vals (loaded_row 1000 2 0)))
   \<and> block (loaded_row 2000 3 0) \<noteq> block (loaded_row 1000 2 0)
   \<and> list_all2 finite_step (map snd (blended_fields (loaded_row 1000 2 0)))
        (map snd (blended_fields (loaded_row 2000 3 0)))
   \<and> list_all2 exact_step (map snd (blended_fields (loaded_row 1000 2 0)))
        (map snd (blended_fields (loaded_row 2000 3 0)))
   \<and> (\<exists>r. interp_row (loaded_row 1000 2 0) (loaded_row 2000 3 0) (block (loaded_row 1000 2 0)) = Some r
         \<and> blended_fields r = blended_fields (loaded_row 1000 2 0))
   \<and> (\<exists>r. interp_row (loaded_row 1000 2 0) (loaded_row 2000 3 0) (block (loaded_row 2000 3 0)) = Some r
         \<and> blended_fields r = blended_fields (loaded_row 2000 3 0))
   \<and> block (loaded_row 5 2 0) = block (loaded_row 5 1 0)
   \<and> list_all2 finite_step (map snd (blended_fields (loaded_row 5 1 0)))
        (map snd (blended_fields (loaded_row 5 2 0)))
   \<and> (\<exists>r. interp_row (loaded_row 5 1 0) (loaded_row 5 2 0) 7 = Some r
         \<and> blended_fields r = blended_fields (loaded_row 5 1 0))"
proof -
  have h: "map fst (vals (loaded_row 2000 3 0)) = map fst (vals (loaded_row 1000 2 0))"
    "distinct (map fst (vals (loaded_row 1000 2 0)))"
    "r64 (block (loaded_row 2000 3 0) - block (loaded_row 1000 2 0))
       = Num (block (loaded_row 2000 3 0) - block (loaded_row 1000 2 0))"
    by (simp_all add: loaded_row_def r64_vals)
  have n: "block (loaded_row 2000 3 0) \<noteq> block (loaded_row 1000 2 0)"
    by (simp add: loaded_row_def)
  have s: "list_all2 finite_step (map snd (blended_fields (loaded_row 1000 2 0)))
        (map snd (blended_fields (loaded_row 2000 3 0)))"
    "list_all2 exact_step (map snd (blended_fields (loaded_row 1000 2 0)))
        (map snd (blended_fields (loaded_row 2000 3 0)))"
    by (simp_all add: loaded_row_def blended_fields_def finite_step_def exact_step_def
        r64_vals r64_zero)
  have g: "map fst (vals (loaded_row 5 2 0)) = map fst (vals (loaded_row 5 1 0))"
    "distinct (map fst (vals (loaded_row 5 1 0)))"
    "r64 (block (loaded_row 5 2 0) - block (loaded_row 5 1 0))
       = Num (block (loaded_row 5 2 0) - block (loaded_row 5 1 0))"
    by (simp_all add: loaded_row_def r64_zero)
  have e: "block (loaded_row 5 2 0) = block (loaded_row 5 1 0)"
    by (simp add: loaded_row_def)
  have u: "list_all2 finite_step (map snd (blended_fields (loaded_row 5 1 0)))
        (map snd (blended_fields (loaded_row 5 2 0)))"
    by (simp add: loaded_row_def blended_fields_def finite_step_def r64_vals r64_zero)
  from interp_row_endpoints [OF h] interp_row_endpoints [OF g, of 7] h n s e u
  show ?thesis by blast
qed

text \<open>
  C6 as stated fails in two ways. For two rows of the same block, line 203 sets the factor
  to 0 and the result carries the values of \<open>before_row\<close>, not those of \<open>after_row\<close>. And
  for two rows of the blocks 1 and 2 with the cells 2.5 and 0.1, the factor at the block
  of \<open>after_row\<close> is 1 and line 218 computes \<open>2.5 + 1.0 * (0.1 - 2.5)\<close> in float64, which is
  \<open>225179981368525 / 2^51 = 0.10000000000000009\<close>, one unit in the last place above 0.1.
\<close>

theorem interp_row_equal_blocks_counterexample:
  "map_option blended_fields
     (interp_row \<lparr>block = 5, vals = [(''x'', Num 1)]\<rparr> \<lparr>block = 5, vals = [(''x'', Num 2)]\<rparr>
        (block \<lparr>block = 5, vals = [(''x'', Num 2)]\<rparr>))
   \<noteq> Some (blended_fields \<lparr>block = 5, vals = [(''x'', Num 2)]\<rparr>)
   \<and> map_option blended_fields
     (interp_row \<lparr>block = 1, vals = [(''x'', Num (5 / 2))]\<rparr> \<lparr>block = 2, vals = [(''x'', Num tenth)]\<rparr>
        (block \<lparr>block = 2, vals = [(''x'', Num tenth)]\<rparr>))
   \<noteq> Some (blended_fields \<lparr>block = 2, vals = [(''x'', Num tenth)]\<rparr>)"
proof -
  have f: "interp_factor 5 5 5 = Num 0" "interp_factor 1 2 2 = Num 1"
    by (simp_all add: interp_factor_def fsub_def r64_vals)
  have a: "fadd (Num 1) (fmul (Num 0) (fsub (Num 2) (Num 1))) = Num 1"
    by (simp add: fsub_def r64_vals r64_zero)
  have t: "Num (225179981368525 / 2251799813685248) \<noteq> Num tenth"
    by (simp add: tenth_def)
  show ?thesis
    using t by (simp add: interp_row_def blended_fields_def blend_cell_def cell_def f a blend_tenth)
qed

section \<open>The nearest row\<close>

lemma get_frame_data_fallback_path:
  assumes "entries d \<noteq> []" and "block_interval d \<noteq> 0"
    and "iloc d (approx_index d t) = Some e"
    and "block_interval d * 2 < \<bar>block (snd e) - t\<bar>"
    and "idxmin (abs_dist (entries d) t) = Some l"
  shows "get_frame_data d t = (case loc d l of None \<Rightarrow> Empty_Series | Some r \<Rightarrow> Series r)"
  using assms by (simp add: get_frame_data_def len_def Let_def)

lemma get_frame_data_fast_path:
  assumes "entries d \<noteq> []" and "block_interval d \<noteq> 0"
    and "approx_index d t = a"
    and "iloc d a = Some e"
    and "\<not> block_interval d * 2 < \<bar>block (snd e) - t\<bar>"
    and "idxmin (abs_dist (iloc_slice (entries d) (max 0 (a - 2)) (min (len d) (a + 3))) t) = Some l"
  shows "get_frame_data d t
           = (case loc d (max 0 (a - 2) + l) of None \<Rightarrow> Empty_Series | Some r \<Rightarrow> Series r)"
  using assms by (simp add: get_frame_data_def len_def Let_def)

text \<open>
  C3. The empty series is returned for a dataset with rows: on the four rows of the
  scenario, at the target 3000, the approximate index is 3, the neighbourhood starts at
  position 1, \<open>idxmin\<close> returns the label 3 of the last row, and \<open>start_idx + 3 = 4\<close> is
  no label of the frame, so \<open>data.loc\<close> raises and the handler returns \<open>pd.Series()\<close>.
\<close>

theorem get_frame_data_empty_on_rows:
  "entries (load_data grid4_raw) \<noteq> [] \<and> get_frame_data (load_data grid4_raw) 3000 = Empty_Series"
proof -
  have ne: "entries grid4 \<noteq> []" and k: "block_interval grid4 \<noteq> 0"
    by (simp_all add: grid4_shape)
  have a: "approx_index grid4 3000 = 3"
    by (simp add: approx_index_def grid4_shape py_int_def)
  have e: "iloc grid4 3 = Some (3, loaded_row 3000 4 0)"
    by (simp add: iloc_def grid4_shape)
  have near: "\<not> block_interval grid4 * 2 < \<bar>block (snd (3 :: int, loaded_row 3000 4 0)) - 3000\<bar>"
    by (simp add: grid4_shape loaded_row_def)
  have s: "iloc_slice (entries grid4) (max 0 (3 - 2)) (min (len grid4) (3 + 3))
             = [(1, loaded_row 1000 2 0), (2, loaded_row 2000 3 0), (3, loaded_row 3000 4 0)]"
    by (simp add: grid4_shape iloc_slice_nonneg)
  have m: "idxmin (abs_dist [(1, loaded_row 1000 2 0), (2, loaded_row 2000 3 0),
             (3, loaded_row 3000 4 0)] 3000) = Some 3"
    by (simp add: idxmin_def abs_dist_def loaded_row_def)
  have l: "loc grid4 (max 0 (3 - 2) + 3) = None"
    by (simp add: grid4_shape loc_def)
  have "get_frame_data grid4 3000 = Empty_Series"
    using get_frame_data_fast_path [OF ne k a e near] s m l by simp
  then show ?thesis by (simp add: load_grid4 grid4_shape)
qed

lemma load_cluster: "load_data cluster_raw = cluster_loaded"
  by (simp add: cluster_raw_def cluster_loaded_def load_eval)

lemma cluster_shape:
  "entries cluster_loaded = [(0, loaded_row 0 1 0), (1, loaded_row 1 2 0), (2, loaded_row 3 3 0),
                 (3, loaded_row 6 4 0), (4, loaded_row 100 5 0), (5, loaded_row 200 6 0),
                 (6, loaded_row 300 7 0)]"
  "block_interval cluster_loaded = 100"
  "len cluster_loaded = 7"
  by (simp_all add: cluster_loaded_def len_def)

lemma scan_step:
  "\<exists>e \<in> set (b # es).
      idxmin_from (fst b, \<bar>block (snd b) - t\<bar>) (abs_dist es t) = fst e
      \<and> nearest_from (snd b) (map snd es) t = snd e"
proof (induction es arbitrary: b)
  case Nil
  then show ?case by (simp add: abs_dist_def)
next
  case (Cons x xs)
  let ?b = "if \<bar>block (snd x) - t\<bar> < \<bar>block (snd b) - t\<bar> then x else b"
  have step: "idxmin_from (fst b, \<bar>block (snd b) - t\<bar>) (abs_dist (x # xs) t)
                = idxmin_from (fst ?b, \<bar>block (snd ?b) - t\<bar>) (abs_dist xs t)"
    "nearest_from (snd b) (map snd (x # xs)) t = nearest_from (snd ?b) (map snd xs) t"
    by (simp_all add: abs_dist_def)
  from Cons.IH [of ?b] obtain e where "e \<in> set (?b # xs)"
    "idxmin_from (fst ?b, \<bar>block (snd ?b) - t\<bar>) (abs_dist xs t) = fst e"
    "nearest_from (snd ?b) (map snd xs) t = snd e"
    by blast
  moreover from this(1) have "e \<in> set (b # x # xs)" by (auto split: if_splits)
  ultimately show ?case unfolding step by blast
qed

lemma scan_agrees:
  assumes "es \<noteq> []" and "set es \<subseteq> set all" and "distinct (map fst all)"
  shows "\<exists>l r. idxmin (abs_dist es t) = Some l \<and> map_of all l = Some r
           \<and> exhaustive_nearest (map snd es) t = Series r"
proof -
  from assms(1) obtain b rest where es: "es = b # rest" by (cases es) auto
  from scan_step [of b rest t] obtain e where e: "e \<in> set (b # rest)"
    "idxmin_from (fst b, \<bar>block (snd b) - t\<bar>) (abs_dist rest t) = fst e"
    "nearest_from (snd b) (map snd rest) t = snd e"
    by blast
  from e(1) assms(2) es have "(fst e, snd e) \<in> set all" by auto
  with assms(3) have "map_of all (fst e) = Some (snd e)" by simp
  with e(2,3) show ?thesis
    by (simp add: es idxmin_def abs_dist_def exhaustive_nearest_def)
qed

lemma iloc_in_range:
  "0 \<le> i \<Longrightarrow> i < len d \<Longrightarrow> iloc d i = Some (entries d ! nat i)"
  by (simp add: iloc_def Let_def)

lemma approx_index_range:
  "entries d \<noteq> [] \<Longrightarrow> 0 \<le> approx_index d t \<and> approx_index d t < len d"
  by (cases "entries d") (auto simp: approx_index_def len_def)

text \<open>
  C1, as amended. On a frame with rows, distinct labels and a nonzero interval:
  when the row at the approximate index is farther than twice the interval from the
  target, \<open>get_frame_data\<close> returns the result of the exhaustive scan over all rows; when
  it is not and the approximate index is at most 2 (the neighbourhood starts at the first
  row), \<open>get_frame_data\<close> returns the result of the exhaustive scan over the rows of the
  neighbourhood, the first \<open>approx_index + 3\<close> rows. Nothing is said of a neighbourhood
  that starts later.
\<close>

theorem get_frame_data_scans:
  assumes "entries d \<noteq> []" and "block_interval d \<noteq> 0" and "distinct (map fst (entries d))"
    and "iloc d (approx_index d t) = Some e"
    and "block_interval d * 2 < \<bar>block (snd e) - t\<bar> \<or> approx_index d t \<le> 2"
  shows "get_frame_data d t =
           exhaustive_nearest
             (if block_interval d * 2 < \<bar>block (snd e) - t\<bar> then map snd (entries d)
              else take (nat (approx_index d t + 3)) (map snd (entries d))) t"
proof (cases "block_interval d * 2 < \<bar>block (snd e) - t\<bar>")
  case True
  from scan_agrees [OF assms(1) subset_refl assms(3), of t]
  obtain l r where l: "idxmin (abs_dist (entries d) t) = Some l"
    and r: "map_of (entries d) l = Some r"
    and x: "exhaustive_nearest (map snd (entries d)) t = Series r"
    by blast
  from get_frame_data_fallback_path [OF assms(1,2,4) True l] r x True
  show ?thesis by (simp add: loc_def)
next
  case False
  with assms(5) have a2: "approx_index d t \<le> 2" by simp
  have a0: "0 \<le> approx_index d t" using approx_index_range [OF assms(1)] by simp
  let ?k = "nat (approx_index d t + 3)"
  have s0: "max 0 (approx_index d t - 2) = 0" using a2 by simp
  have sl: "iloc_slice (entries d) 0 (min (len d) (approx_index d t + 3)) = take ?k (entries d)"
  proof -
    have "iloc_slice (entries d) 0 (min (len d) (approx_index d t + 3))
            = take (nat (min (len d) (approx_index d t + 3))) (entries d)"
      using a0 by (simp add: iloc_slice_nonneg len_def)
    also have "\<dots> = take ?k (entries d)"
      by (cases "len d \<le> approx_index d t + 3") (simp_all add: min_def len_def)
    finally show ?thesis .
  qed
  have ne: "take ?k (entries d) \<noteq> []" using assms(1) a0 by simp
  from scan_agrees [OF ne set_take_subset assms(3), of t]
  obtain l r where l: "idxmin (abs_dist (take ?k (entries d)) t) = Some l"
    and r: "map_of (entries d) l = Some r"
    and x: "exhaustive_nearest (map snd (take ?k (entries d))) t = Series r"
    by blast
  have l': "idxmin (abs_dist (iloc_slice (entries d) (max 0 (approx_index d t - 2))
              (min (len d) (approx_index d t + 3))) t) = Some l"
    by (simp only: s0 sl l)
  from get_frame_data_fast_path [OF assms(1,2) refl assms(4) False l'] r x False
  show ?thesis by (simp add: loc_def s0 take_map)
qed

text \<open>
  The scenario of the specification: at the target 2600 the four-row frame gives the
  row of block 3000, as the exhaustive scan does.
\<close>

theorem get_frame_data_scans_witness:
  "get_frame_data (load_data grid4_raw) 2600
     = exhaustive_nearest (map snd (entries (load_data grid4_raw))) 2600
   \<and> get_frame_data (load_data grid4_raw) 2600 = Series (loaded_row 3000 4 0)"
proof -
  have ne: "entries grid4 \<noteq> []" and k: "block_interval grid4 \<noteq> 0"
    and dl: "distinct (map fst (entries grid4))"
    by (simp_all add: grid4_shape)
  have a: "approx_index grid4 2600 = 2"
    by (simp add: approx_index_def grid4_shape py_int_def)
  have e: "iloc grid4 (approx_index grid4 2600) = Some (2, loaded_row 2000 3 0)"
    by (simp add: a iloc_def grid4_shape)
  have near: "\<not> block_interval grid4 * 2 < \<bar>block (snd (2 :: int, loaded_row 2000 3 0)) - 2600\<bar>"
    by (simp add: grid4_shape loaded_row_def)
  have t: "take (nat (approx_index grid4 2600 + 3)) (map snd (entries grid4)) = map snd (entries grid4)"
    by (simp add: a grid4_shape)
  have x: "exhaustive_nearest (map snd (entries grid4)) 2600 = Series (loaded_row 3000 4 0)"
    by (simp add: grid4_shape exhaustive_nearest_def loaded_row_def)
  have "get_frame_data grid4 2600 = exhaustive_nearest (map snd (entries grid4)) 2600"
    using get_frame_data_scans [OF ne k dl e] a near t by simp
  with x show ?thesis by (simp add: load_grid4)
qed

text \<open>
  C1 as stated fails: at the target 6, within the range of the blocks, the approximate
  index is 0, the row there is close enough, and the neighbourhood is the rows of the
  blocks 0, 1, 3; \<open>get_frame_data\<close> returns the row of block 3, the exhaustive scan the
  row of block 6.
\<close>

theorem get_frame_data_neighbourhood_counterexample:
  "get_frame_data (load_data cluster_raw) 6 = Series (loaded_row 3 3 0)
   \<and> exhaustive_nearest (map snd (entries (load_data cluster_raw))) 6 = Series (loaded_row 6 4 0)
   \<and> loaded_row 3 3 0 \<noteq> loaded_row 6 4 0
   \<and> block (snd (hd (entries (load_data cluster_raw)))) \<le> 6
   \<and> 6 \<le> block (snd (last (entries (load_data cluster_raw))))"
proof -
  have ne: "entries cluster_loaded \<noteq> []" and k: "block_interval cluster_loaded \<noteq> 0"
    by (simp_all add: cluster_shape)
  have a: "approx_index cluster_loaded 6 = 0"
    by (simp add: approx_index_def cluster_shape py_int_def)
  have e: "iloc cluster_loaded 0 = Some (0, loaded_row 0 1 0)"
    by (simp add: iloc_def cluster_shape)
  have near: "\<not> block_interval cluster_loaded * 2 < \<bar>block (snd (0 :: int, loaded_row 0 1 0)) - 6\<bar>"
    by (simp add: cluster_shape loaded_row_def)
  have s: "iloc_slice (entries cluster_loaded) (max 0 (0 - 2)) (min (len cluster_loaded) (0 + 3))
             = [(0, loaded_row 0 1 0), (1, loaded_row 1 2 0), (2, loaded_row 3 3 0)]"
    by (simp add: cluster_shape iloc_slice_nonneg)
  have m: "idxmin (abs_dist [(0, loaded_row 0 1 0), (1, loaded_row 1 2 0), (2, loaded_row 3 3 0)] 6)
             = Some 2"
    by (simp add: idxmin_def abs_dist_def loaded_row_def)
  have l: "loc cluster_loaded (max 0 (0 - 2) + 2) = Some (loaded_row 3 3 0)"
    by (simp add: cluster_shape loc_def)
  have g: "get_frame_data cluster_loaded 6 = Series (loaded_row 3 3 0)"
    using get_frame_data_fast_path [OF ne k a e near] s m l by simp
  have x: "exhaustive_nearest (map snd (entries cluster_loaded)) 6 = Series (loaded_row 6 4 0)"
    by (simp add: cluster_shape exhaustive_nearest_def loaded_row_def)
  have d: "loaded_row 3 3 0 \<noteq> loaded_row 6 4 0"
    "block (snd (hd (entries cluster_loaded))) \<le> 6"
    "6 \<le> block (snd (last (entries cluster_loaded)))"
    by (simp_all add: cluster_shape loaded_row_def)
  from g x d show ?thesis by (simp only: load_cluster simp_thms)
qed

section \<open>The downsampling budget\<close>

lemma iloc_step_one: "iloc_step (Suc 0) 0 xs = xs"
  by (induction xs) simp_all

lemma downsample_small_stride:
  assumes "MAX_DATA_POINTS_PER_CHART < length w" and "length w < 2 * MAX_DATA_POINTS_PER_CHART"
  shows "downsample w = w"
proof -
  have "length w div MAX_DATA_POINTS_PER_CHART = Suc 0"
    using assms by (simp add: MAX_DATA_POINTS_PER_CHART_def div_nat_eqI)
  then show ?thesis using assms by (simp add: downsample_def iloc_step_one)
qed

lemma window_frame41: "filtered_window frame41 20 40 = Some (entries frame41)"
proof -
  have b: "window_start 20 = 0" "window_end 20 40 = 40"
    by (simp_all add: window_start_def window_end_def half_window_size)
  have n: "length (entries frame41) = 41" by (simp add: frame41_def)
  have s: "iloc_slice (entries frame41) 0 41 = entries frame41"
    by (simp add: iloc_slice_nonneg n)
  have f: "filter (\<lambda>e. 0 \<le> block (snd e) \<and> block (snd e) \<le> 40) (entries frame41) = entries frame41"
    by (rule filter_True) (auto simp: frame41_def loaded_row_def)
  have i: "block_interval frame41 = 1" by (simp add: frame41_def)
  show ?thesis
    by (simp add: filtered_window_def b i py_int_def len_def n s f)
qed

text \<open>
  C4. The bound fails: the stride is the floor of \<open>len / MAX_DATA_POINTS_PER_CHART\<close>, which
  is 1 for every window of 41 to 79 rows, and such a window is returned whole. On the frame
  of 41 rows, at the target 20 with maximum block 40, the window holds all 41 rows and
  \<open>optimize_chart_data\<close> returns 41 rows, one more than \<open>MAX_DATA_POINTS_PER_CHART\<close>.
\<close>

theorem downsample_exceeds_max_points:
  "map_option (\<lambda>res. length (window_data res)) (optimize_chart_data frame41 20 40 ''x'') = Some 41
   \<and> MAX_DATA_POINTS_PER_CHART = 40"
proof -
  have n: "length (entries frame41) = 41" by (simp add: frame41_def)
  have "downsample (entries frame41) = entries frame41"
    by (rule downsample_small_stride) (simp_all add: n MAX_DATA_POINTS_PER_CHART_def)
  then show ?thesis
    by (simp add: optimize_chart_data_def window_frame41 n MAX_DATA_POINTS_PER_CHART_def)
qed

text \<open>
  What holds of the downsampling: a window within the budget is returned as it is, the
  order of the rows is kept, and fewer than twice the budget are returned.
\<close>

lemma downsample_noop: "length w \<le> MAX_DATA_POINTS_PER_CHART \<Longrightarrow> downsample w = w"
  by (simp add: downsample_def)

lemma iloc_step_sorted: "sorted (map f xs) \<Longrightarrow> sorted (map f (iloc_step n k xs))"
proof (induction xs arbitrary: k)
  case Nil
  then show ?case by simp
next
  case (Cons x xs)
  then have "sorted (map f xs)" "\<forall>y \<in> set xs. f x \<le> f y" by auto
  moreover have "set (iloc_step n j xs) \<subseteq> set xs" for j by (rule set_iloc_step)
  ultimately show ?case using Cons.IH by (auto simp: subset_iff)
qed

lemma downsample_sorted: "sorted (map f w) \<Longrightarrow> sorted (map f (downsample w))"
  by (simp add: downsample_def iloc_step_sorted)

lemma iloc_step_length:
  "0 < n \<Longrightarrow> k < n \<Longrightarrow> length (iloc_step n k xs) = (length xs + (n - 1 - k)) div n"
proof (induction xs arbitrary: k)
  case Nil
  then show ?case by simp
next
  case (Cons x xs)
  show ?case
  proof (cases "k = 0")
    case True
    have "length (iloc_step n (n - 1) xs) = (length xs + (n - 1 - (n - 1))) div n"
      using Cons.prems by (intro Cons.IH) simp_all
    moreover have "(Suc (length xs) + (n - 1)) div n = Suc (length xs div n)"
    proof -
      have "Suc (length xs) + (n - 1) = length xs + n" using Cons.prems(1) by simp
      then show ?thesis using Cons.prems(1) by simp
    qed
    ultimately show ?thesis using True by simp
  next
    case False
    have "length (iloc_step n (k - 1) xs) = (length xs + (n - 1 - (k - 1))) div n"
      using False Cons.prems by (intro Cons.IH) simp_all
    moreover have "length xs + (n - 1 - (k - 1)) = length (x # xs) + (n - 1 - k)"
      using False Cons.prems by simp
    ultimately show ?thesis using False by simp
  qed
qed

lemma downsample_length_bound: "length (downsample w) < 2 * MAX_DATA_POINTS_PER_CHART"
proof (cases "MAX_DATA_POINTS_PER_CHART < length w")
  case False
  then show ?thesis by (simp add: downsample_def MAX_DATA_POINTS_PER_CHART_def)
next
  case True
  define n where "n = length w div 40"
  define r where "r = length w mod 40"
  have w: "length w = 40 * n + r" and r: "r < 40" by (simp_all add: n_def r_def)
  have n1: "1 \<le> n" using True w r by (simp add: MAX_DATA_POINTS_PER_CHART_def)
  have "length (iloc_step n 0 w) = (length w + (n - 1 - 0)) div n"
    using n1 by (intro iloc_step_length) simp_all
  moreover have "(length w + (n - 1)) div n < 80"
  proof -
    have "length w + (n - 1) < 80 * n" using w r n1 by simp
    then show ?thesis using n1 by (simp add: div_less_iff_less_mult)
  qed
  ultimately show ?thesis
    using True by (simp add: downsample_def MAX_DATA_POINTS_PER_CHART_def n_def)
qed

section \<open>Dataset construction\<close>






















section \<open>The bracket search\<close>

lemma load_skew: "load_data skew_raw = skew_loaded"
  by (simp add: skew_raw_def skew_loaded_def load_eval)

lemma skew_shape:
  "entries skew_loaded = [(0, loaded_row 0 1 0), (1, loaded_row 1 2 0), (2, loaded_row 3 3 0),
                 (3, loaded_row 6 4 0), (4, loaded_row 10 5 0), (5, loaded_row 15 6 0),
                 (6, loaded_row 100 7 0), (7, loaded_row 200 8 0), (8, loaded_row 300 9 0)]"
  "block_interval skew_loaded = 100"
  "len skew_loaded = 9"
  by (simp_all add: skew_loaded_def len_def)

text \<open>The branches of the search, one lemma each.\<close>

lemma bracket_search_exact:
  assumes "block_interval d \<noteq> 0"
    and "max 0 (if len d \<le> py_int (t / block_interval d) then len d - 1
                else py_int (t / block_interval d)) = a"
    and "iloc d a = Some e" and "block (snd e) = t"
  shows "bracket_search d t = Some (a, min (len d - 1) (a + 1))"
  using assms by (simp add: bracket_search_def Let_def)

lemma bracket_search_next:
  assumes "block_interval d \<noteq> 0"
    and "max 0 (if len d \<le> py_int (t / block_interval d) then len d - 1
                else py_int (t / block_interval d)) = a"
    and "iloc d a = Some e" and "block (snd e) < t"
    and "a + 1 < len d" and "iloc d (a + 1) = Some e'" and "t < block (snd e')"
  shows "bracket_search d t = Some (a, min (len d - 1) (a + 1))"
  using assms by (simp add: bracket_search_def Let_def)

lemma bracket_search_forward:
  assumes "block_interval d \<noteq> 0"
    and "max 0 (if len d \<le> py_int (t / block_interval d) then len d - 1
                else py_int (t / block_interval d)) = a"
    and "iloc d a = Some e" and "block (snd e) < t"
    and "iloc d (a + 1) = Some e'" and "\<not> t < block (snd e')"
    and "iloc_slice (entries d) a (min (len d) (a + 5)) = sub"
    and "list_ex snd (le_matches sub t)"
    and "idxmax (rev (le_matches sub t)) = Some l"
  shows "bracket_search d t = Some (a + l, min (len d - 1) (a + l + 1))"
  using assms by (simp add: bracket_search_def Let_def)

lemma bracket_search_backward:
  assumes "block_interval d \<noteq> 0"
    and "max 0 (if len d \<le> py_int (t / block_interval d) then len d - 1
                else py_int (t / block_interval d)) = a"
    and "iloc d a = Some e" and "t < block (snd e)"
    and "iloc_slice (entries d) (max 0 (a - 5)) a = sub" and "sub \<noteq> []"
    and "idxmax (rev (le_matches sub t)) = Some l"
  shows "bracket_search d t
           = Some (max 0 (a - 5) + l, min (len d - 1) (max 0 (a - 5) + l + 1))"
  using assms by (simp add: bracket_search_def Let_def)

lemma sorted_filter_takeWhile:
  "sorted (map g xs) \<Longrightarrow>
   filter (\<lambda>e. g e \<le> (t :: real)) xs = takeWhile (\<lambda>e. g e \<le> t) xs"
proof (induction xs)
  case Nil
  then show ?case by simp
next
  case (Cons x xs)
  show ?case
  proof (cases "g x \<le> t")
    case True
    with Cons show ?thesis by simp
  next
    case False
    with Cons.prems have "\<forall>y \<in> set xs. \<not> g y \<le> t" by auto
    then have "filter (\<lambda>e. g e \<le> t) xs = []" by (simp add: filter_empty_conv)
    with False show ?thesis by simp
  qed
qed

lemma idxmax_rev_last:
  assumes "filter snd xs \<noteq> []"
  shows "idxmax (rev xs) = Some (fst (last (filter snd xs)))"
proof -
  from assms have x: "xs \<noteq> []" by auto
  then obtain y ys where r: "rev xs = y # ys" by (cases "rev xs") auto
  from assms obtain z zs where f: "rev (filter snd xs) = z # zs"
    by (cases "rev (filter snd xs)") auto
  then have "last (filter snd xs) = z" using assms by (metis hd_rev list.sel(1))
  moreover have "filter snd (rev xs) = z # zs" using f by (simp add: rev_filter)
  ultimately show ?thesis unfolding idxmax_def r [symmetric]
    by (simp add: r)
qed

lemma window_last_match:
  assumes s: "sorted (map (\<lambda>e. block (snd e)) w)" and ne: "w \<noteq> []"
    and h: "block (snd (hd w)) \<le> t"
  shows "\<exists>k. 0 < k \<and> k \<le> length w \<and> list_ex snd (le_matches w t)
           \<and> idxmax (rev (le_matches w t)) = Some (fst (w ! (k - 1)))
           \<and> block (snd (w ! (k - 1))) \<le> t
           \<and> (k < length w \<longrightarrow> t < block (snd (w ! k)))"
proof -
  let ?P = "\<lambda>e. block (snd e) \<le> t"
  define k where "k = length (takeWhile ?P w)"
  from ne obtain x xs where w: "w = x # xs" by (cases w) auto
  with h have px: "?P x" by simp
  then have k0: "0 < k" by (simp add: k_def w)
  have k1: "k \<le> length w" unfolding k_def by (rule length_takeWhile_le)
  have tw: "takeWhile ?P w = take k w" unfolding k_def by (rule takeWhile_eq_take)
  have fl: "filter ?P w = take k w"
    using sorted_filter_takeWhile [OF s, of t] tw by simp
  have fm: "filter snd (le_matches w t) = map (\<lambda>e. (fst e, ?P e)) (take k w)"
    by (simp add: le_matches_def filter_map comp_def fl)
  have tk: "take k w \<noteq> []" using k0 ne by simp
  have lk: "last (take k w) = w ! (k - 1)"
    using k0 k1 tk by (simp add: last_conv_nth min_def)
  have fn: "filter snd (le_matches w t) \<noteq> []" using tk by (simp add: fm)
  have "idxmax (rev (le_matches w t)) = Some (fst (last (filter snd (le_matches w t))))"
    using fn by (rule idxmax_rev_last)
  also have "\<dots> = Some (fst (w ! (k - 1)))"
    using tk by (simp add: fm last_map lk)
  finally have im: "idxmax (rev (le_matches w t)) = Some (fst (w ! (k - 1)))" .
  have "w ! (k - 1) \<in> set (takeWhile ?P w)"
    unfolding tw using k0 k1 by (metis lk tk last_in_set)
  then have pk: "?P (w ! (k - 1))" by (rule set_takeWhileD [THEN conjunct2])
  have nx: "t < block (snd (w ! k))" if "k < length w"
    using nth_length_takeWhile [of ?P w] that by (simp add: k_def not_le)
  have ex: "list_ex snd (le_matches w t)"
    using px by (simp add: le_matches_def w)
  from k0 k1 ex im pk nx show ?thesis by blast
qed

lemma first_labels_nth:
  assumes "first_labels d" and "j < 5" and "j < length (entries d)"
  shows "fst (entries d ! j) = int j"
proof -
  have "map fst (take 5 (entries d)) ! j = fst (entries d ! j)"
    using assms(2,3) by simp
  moreover have "map int [0..<min 5 (length (entries d))] ! j = int j"
    using assms(2,3) by simp
  ultimately show ?thesis using assms(1) by (simp only: first_labels_def)
qed

lemma sorted_blocks:
  assumes "sorted (map (\<lambda>e. block (snd e)) (entries d))"
    and "0 \<le> i" and "i \<le> j" and "j < len d"
  shows "block_at d i \<le> block_at d j"
proof -
  have "nat i \<le> nat j" "nat j < length (map (\<lambda>e. block (snd e)) (entries d))"
    using assms(2-4) by (simp_all add: len_def)
  from sorted_nth_mono [OF assms(1) this] this(2) show ?thesis
    using assms(2-4) by (simp add: block_at_def len_def)
qed

text \<open>
  C5, as amended. On a frame of at least two rows, sorted by block, with a nonzero
  interval, for every target between the first and the last block that the search reaches
  (\<open>window_reach\<close>: the approximate index is at the row at or directly before the target,
  or the search window that is entered starts at the first row of the frame and does not
  end before the target): the search returns two positions of the frame with
  \<open>idx_before \<le> idx_after\<close> and \<open>block[idx_before] \<le> target \<le> block[idx_after]\<close>.
\<close>

theorem bracket_search_brackets:
  assumes n2: "2 \<le> len d"
    and k: "block_interval d \<noteq> 0"
    and s: "sorted (map (\<lambda>e. block (snd e)) (entries d))"
    and t0: "block_at d 0 \<le> t"
    and t1: "t \<le> block_at d (len d - 1)"
    and reach: "window_reach d t"
  shows "\<exists>ib ia. bracket_search d t = Some (ib, ia) \<and> 0 \<le> ib \<and> ib \<le> ia \<and> ia < len d
           \<and> block_at d ib \<le> t \<and> t \<le> block_at d ia"
proof -
  define a where "a = approx_before d t"
  define n where "n = length (entries d)"
  have ln: "len d = int n" by (simp add: len_def n_def)
  have n2': "2 \<le> n" using n2 by (simp add: ln)
  have cl: "max 0 (if len d \<le> py_int (t / block_interval d) then len d - 1
                else py_int (t / block_interval d)) = a"
    by (simp add: a_def approx_before_def Let_def)
  have a0: "0 \<le> a" using cl by linarith
  have an: "a < int n" using cl n2 by (simp add: ln split: if_splits)
  have il: "iloc d i = Some (entries d ! nat i)" if "0 \<le> i" "i < int n" for i
    using that by (simp add: iloc_def Let_def ln)
  have ba: "block (snd (entries d ! nat i)) = block_at d i" for i
    by (simp add: block_at_def)
  have sw: "sorted (map (\<lambda>e. block (snd e)) (take m (entries d)))" for m
    using s by (simp add: take_map [symmetric] sorted_wrt_take)
  let ?ia = "min (len d - 1) (a + 1)"
  consider (above) "t < block_at d a" | (below) "block_at d a < t" | (equal) "block_at d a = t"
    by linarith
  then show ?thesis
  proof cases
    case equal
    have bs: "bracket_search d t = Some (a, ?ia)"
      using k cl il [OF a0 an] by (rule bracket_search_exact) (simp add: ba equal)
    have i0: "a \<le> ?ia" "?ia < len d" using a0 an by (simp_all add: ln)
    have "block_at d a \<le> block_at d ?ia" using s a0 i0 by (rule sorted_blocks)
    with bs i0 a0 equal show ?thesis by simp
  next
    case above
    from reach above have a5: "a \<le> 5" and fl: "first_labels d"
      by (simp_all add: window_reach_def Let_def a_def [symmetric])
    have "a \<noteq> 0" using above t0 by auto
    with a0 have a1: "1 \<le> a" by simp
    define w where "w = take (nat a) (entries d)"
    have sub: "iloc_slice (entries d) (max 0 (a - 5)) a = w"
      using a5 a0 by (simp add: iloc_slice_nonneg w_def)
    have lw: "length w = nat a" using an by (simp add: w_def n_def)
    have wne: "w \<noteq> []" using a1 lw by auto
    have wn: "w ! j = entries d ! j" if "j < nat a" for j using that by (simp add: w_def)
    have "hd w = entries d ! 0" using wne a1 wn [of 0] by (simp add: hd_conv_nth)
    then have hw: "block (snd (hd w)) \<le> t" using t0 by (simp add: block_at_def)
    from window_last_match [OF sw [of "nat a", folded w_def] wne hw]
    obtain c where c: "0 < c" "c \<le> nat a"
      and im: "idxmax (rev (le_matches w t)) = Some (fst (w ! (c - 1)))"
      and pk: "block (snd (w ! (c - 1))) \<le> t"
      and nx: "c < nat a \<Longrightarrow> t < block (snd (w ! c))"
      by (auto simp: lw)
    have c1: "c - 1 < nat a" using c by simp
    have lab: "fst (w ! (c - 1)) = int (c - 1)"
      using first_labels_nth [OF fl, of "c - 1"] c a5 an wn [OF c1] by (simp add: n_def)
    have im': "idxmax (rev (le_matches w t)) = Some (int (c - 1))" using im lab by simp
    have m0: "max 0 (a - 5) = 0" using a5 by simp
    have bs: "bracket_search d t
           = Some (max 0 (a - 5) + int (c - 1), min (len d - 1) (max 0 (a - 5) + int (c - 1) + 1))"
      using k cl il [OF a0 an] _ sub wne
      by (rule bracket_search_backward) (simp_all add: ba above im')
    have ic: "int (c - 1) + 1 = int c" using c(1) by simp
    have ca: "int c \<le> a" using c(2) a0 by simp
    have "max 0 (a - 5) + int (c - 1) = int (c - 1)"
      "min (len d - 1) (max 0 (a - 5) + int (c - 1) + 1) = int c"
      using c(1) ca an a5 unfolding ln by linarith+
    with bs have bs': "bracket_search d t = Some (int (c - 1), int c)"
      by (simp only:)
    have lo: "block_at d (int (c - 1)) \<le> t" using pk wn [OF c1] by (simp add: block_at_def)
    have hi: "t \<le> block_at d (int c)"
    proof (cases "c < nat a")
      case True
      from nx [OF True] wn [OF True] show ?thesis by (simp add: block_at_def)
    next
      case False
      with c(2) a0 have "int c = a" by simp
      with above show ?thesis by simp
    qed
    from bs' lo hi ca an show ?thesis by (simp add: ln)
  next
    case below
    have a2: "a + 1 < int n"
    proof (rule ccontr)
      assume "\<not> a + 1 < int n"
      with an have "a = len d - 1" by (simp add: ln)
      with below t1 show False by simp
    qed
    have a3: "0 \<le> a + 1" using a0 by simp
    show ?thesis
    proof (cases "t < block_at d (a + 1)")
      case True
      have bs: "bracket_search d t = Some (a, ?ia)"
        using k cl il [OF a0 an] _ _ il [OF a3 a2]
        by (rule bracket_search_next) (simp_all add: ba below True ln a2)
      have "?ia = a + 1" using a2 by (simp add: ln)
      with bs a0 a2 below True show ?thesis by (simp add: ln)
    next
      case False
      with reach below have z: "a = 0" and fl: "first_labels d"
        and far: "len d \<le> 5 \<or> t \<le> block_at d 5"
        by (simp_all add: window_reach_def Let_def a_def [symmetric])
      define m where "m = min n 5"
      define w where "w = take m (entries d)"
      have sub: "iloc_slice (entries d) a (min (len d) (a + 5)) = w"
        by (simp add: z iloc_slice_nonneg w_def m_def ln min_def)
      have lw: "length w = m" by (simp add: w_def m_def n_def)
      have m2: "2 \<le> m" using n2' by (simp add: m_def)
      have wne: "w \<noteq> []" using m2 lw by auto
      have wn: "w ! j = entries d ! j" if "j < m" for j using that by (simp add: w_def)
      have "hd w = entries d ! 0" using wne m2 wn [of 0] by (simp add: hd_conv_nth)
      then have hw: "block (snd (hd w)) \<le> t" using t0 by (simp add: block_at_def)
      from window_last_match [OF sw [of m, folded w_def] wne hw]
      obtain c where c: "0 < c" "c \<le> m"
        and ex: "list_ex snd (le_matches w t)"
        and im: "idxmax (rev (le_matches w t)) = Some (fst (w ! (c - 1)))"
        and pk: "block (snd (w ! (c - 1))) \<le> t"
        and nx: "c < m \<Longrightarrow> t < block (snd (w ! c))"
        by (auto simp: lw)
      have c1: "c - 1 < m" using c by simp
      have lab: "fst (w ! (c - 1)) = int (c - 1)"
        using first_labels_nth [OF fl, of "c - 1"] c1 wn [OF c1] by (simp add: n_def m_def)
      have im': "idxmax (rev (le_matches w t)) = Some (int (c - 1))" using im lab by simp
      have nf: "\<not> t < block (snd (entries d ! nat (a + 1)))" using False by (simp add: ba)
      have bs: "bracket_search d t
             = Some (a + int (c - 1), min (len d - 1) (a + int (c - 1) + 1))"
        using k cl il [OF a0 an] _ il [OF a3 a2] nf sub ex
        by (rule bracket_search_forward) (simp_all add: ba below im')
      have ic: "int (c - 1) + 1 = int c" using c(1) by simp
      have "a + int (c - 1) = int (c - 1)"
        "min (len d - 1) (a + int (c - 1) + 1) = min (int n - 1) (int c)"
        using c(1) z unfolding ln by linarith+
      with bs have bs': "bracket_search d t = Some (int (c - 1), min (int n - 1) (int c))"
        by (simp only:)
      have lo: "block_at d (int (c - 1)) \<le> t" using pk wn [OF c1] by (simp add: block_at_def)
      have cn: "c \<le> n" using c(2) by (simp add: m_def)
      have hi: "t \<le> block_at d (min (int n - 1) (int c))"
      proof (cases "c < m")
        case True
        then have "c < n" by (simp add: m_def)
        then have "min (int n - 1) (int c) = int c" by simp
        with nx [OF True] wn [OF True] show ?thesis by (simp add: block_at_def)
      next
        case False
        with c(2) have cm: "c = m" by simp
        show ?thesis
        proof (cases "n \<le> 5")
          case True
          then have "c = n" by (simp add: cm m_def)
          then have "min (int n - 1) (int c) = len d - 1" by (simp add: ln)
          with t1 show ?thesis by simp
        next
          case False
          then have "c = 5" by (simp add: cm m_def)
          with False have "min (int n - 1) (int c) = 5" by simp
          with far False show ?thesis by (simp add: ln)
        qed
      qed
      have "int (c - 1) \<le> min (int n - 1) (int c)" using c(1) cn by simp
      moreover have "min (int n - 1) (int c) < len d" using n2' by (simp add: ln)
      ultimately show ?thesis using bs' lo hi by simp
    qed
  qed
qed

lemma load_gap: "load_data gap_raw = gap_loaded"
  by (simp add: gap_raw_def gap_loaded_def load_eval)

lemma gap_shape:
  "entries gap_loaded = [(0, loaded_row 0 1 0), (1, loaded_row 1000 2 0), (2, loaded_row 2000 3 0),
                 (3, loaded_row 3000 4 0), (4, loaded_row 3500 5 0), (5, loaded_row 4000 6 0)]"
  "block_interval gap_loaded = 1000"
  "len gap_loaded = 6"
  by (simp_all add: gap_loaded_def len_def)

lemma load_sparse: "load_data sparse_raw = sparse_loaded"
  by (simp add: sparse_raw_def sparse_loaded_def load_eval)

lemma sparse_shape:
  "entries sparse_loaded = [(0, loaded_row 0 1 0), (1, loaded_row 5000 2 0),
                 (2, loaded_row 6000 3 0), (3, loaded_row 7000 4 0)]"
  "block_interval sparse_loaded = 1000"
  "len sparse_loaded = 4"
  by (simp_all add: sparse_loaded_def len_def)

lemma sparse_reach:
  "approx_before sparse_loaded 5500 = 3"
  "5500 < block_at sparse_loaded 3"
  "first_labels sparse_loaded"
  by (simp_all add: approx_before_def block_at_def first_labels_def sparse_shape py_int_def
      loaded_row_def upt_rec)

lemma cluster_reach:
  "approx_before cluster_loaded 2 = 0"
  "block_at cluster_loaded 0 < 2"
  "\<not> 2 < block_at cluster_loaded 1"
  "2 \<le> block_at cluster_loaded 5"
  "first_labels cluster_loaded"
  by (simp_all add: approx_before_def block_at_def first_labels_def cluster_shape py_int_def
      loaded_row_def upt_rec)

lemma bracket_search_sparse: "bracket_search (load_data sparse_raw) 5500 = Some (1, 2)"
proof -
  have k: "block_interval sparse_loaded \<noteq> 0" by (simp add: sparse_shape)
  have a: "max 0 (if len sparse_loaded \<le> py_int (5500 / block_interval sparse_loaded)
                  then len sparse_loaded - 1 else py_int (5500 / block_interval sparse_loaded)) = 3"
    by (simp add: sparse_shape py_int_def)
  have e: "iloc sparse_loaded 3 = Some (3, loaded_row 7000 4 0)"
    by (simp add: iloc_def sparse_shape)
  have c: "5500 < block (snd (3 :: int, loaded_row 7000 4 0))"
    by (simp add: loaded_row_def)
  have s: "iloc_slice (entries sparse_loaded) (max 0 (3 - 5)) 3
             = [(0, loaded_row 0 1 0), (1, loaded_row 5000 2 0), (2, loaded_row 6000 3 0)]"
    by (simp add: sparse_shape iloc_slice_nonneg)
  have m: "le_matches [(0, loaded_row 0 1 0), (1, loaded_row 5000 2 0), (2, loaded_row 6000 3 0)]
             5500 = [(0, True), (1, True), (2, False)]"
    by (simp add: le_matches_def loaded_row_def)
  have x: "idxmax (rev [(0 :: int, True), (1, True), (2, False)]) = Some 1"
    by (simp add: idxmax_def)
  have "bracket_search sparse_loaded 5500
          = Some (max 0 (3 - 5) + 1, min (len sparse_loaded - 1) (max 0 (3 - 5) + 1 + 1))"
    using k a e c s by (rule bracket_search_backward) (simp_all only: m x, simp)
  then show ?thesis by (simp add: load_sparse sparse_shape)
qed

lemma bracket_search_cluster: "bracket_search (load_data cluster_raw) 2 = Some (1, 2)"
proof -
  have k: "block_interval cluster_loaded \<noteq> 0" by (simp add: cluster_shape)
  have a: "max 0 (if len cluster_loaded \<le> py_int (2 / block_interval cluster_loaded)
                  then len cluster_loaded - 1 else py_int (2 / block_interval cluster_loaded)) = 0"
    by (simp add: cluster_shape py_int_def)
  have e: "iloc cluster_loaded 0 = Some (0, loaded_row 0 1 0)"
    "iloc cluster_loaded (0 + 1) = Some (1, loaded_row 1 2 0)"
    by (simp_all add: iloc_def cluster_shape)
  have c: "block (snd (0 :: int, loaded_row 0 1 0)) < 2"
    "\<not> 2 < block (snd (1 :: int, loaded_row 1 2 0))"
    by (simp_all add: loaded_row_def)
  have s: "iloc_slice (entries cluster_loaded) 0 (min (len cluster_loaded) (0 + 5))
             = [(0, loaded_row 0 1 0), (1, loaded_row 1 2 0), (2, loaded_row 3 3 0),
                (3, loaded_row 6 4 0), (4, loaded_row 100 5 0)]"
    by (simp add: cluster_shape iloc_slice_nonneg)
  have m: "le_matches [(0, loaded_row 0 1 0), (1, loaded_row 1 2 0), (2, loaded_row 3 3 0),
                (3, loaded_row 6 4 0), (4, loaded_row 100 5 0)] 2
             = [(0, True), (1, True), (2, False), (3, False), (4, False)]"
    by (simp add: le_matches_def loaded_row_def)
  have x: "list_ex snd [(0 :: int, True), (1, True), (2, False), (3, False), (4, False)]"
    "idxmax (rev [(0 :: int, True), (1, True), (2, False), (3, False), (4, False)]) = Some 1"
    by (simp_all add: idxmax_def)
  have "bracket_search cluster_loaded 2 = Some (0 + 1, min (len cluster_loaded - 1) (0 + 1 + 1))"
    using k a e(1) c(1) e(2) c(2) s
    by (rule bracket_search_forward) (simp_all only: m x)
  then show ?thesis by (simp add: load_cluster cluster_shape)
qed

text \<open>
  Both windows on data that \<open>load_data\<close> built. With the blocks 0, 5000, 6000, 7000
  (interval 1000) and the target 5500 the approximate index is clamped to 3, the backward
  window is the rows 0 to 2 and the search returns the positions 1 and 2. With the blocks
  0, 1, 3, 6, 100, 200, 300 (interval 100) and the target 2 the approximate index is 0, the
  forward window is the rows 0 to 4 and the search returns the positions 1 and 2.
\<close>

theorem bracket_search_brackets_witness:
  "approx_before (load_data sparse_raw) 5500 = 3
   \<and> 5500 < block_at (load_data sparse_raw) 3
   \<and> window_reach (load_data sparse_raw) 5500
   \<and> (\<exists>ib ia. bracket_search (load_data sparse_raw) 5500 = Some (ib, ia) \<and> 0 \<le> ib \<and> ib \<le> ia
         \<and> ia < len (load_data sparse_raw)
         \<and> block_at (load_data sparse_raw) ib \<le> 5500 \<and> 5500 \<le> block_at (load_data sparse_raw) ia)
   \<and> bracket_search (load_data sparse_raw) 5500 = Some (1, 2)
   \<and> approx_before (load_data cluster_raw) 2 = 0
   \<and> block_at (load_data cluster_raw) 0 < 2
   \<and> window_reach (load_data cluster_raw) 2
   \<and> (\<exists>ib ia. bracket_search (load_data cluster_raw) 2 = Some (ib, ia) \<and> 0 \<le> ib \<and> ib \<le> ia
         \<and> ia < len (load_data cluster_raw)
         \<and> block_at (load_data cluster_raw) ib \<le> 2 \<and> 2 \<le> block_at (load_data cluster_raw) ia)
   \<and> bracket_search (load_data cluster_raw) 2 = Some (1, 2)"
proof -
  have h: "2 \<le> len sparse_loaded" "block_interval sparse_loaded \<noteq> 0"
    "sorted (map (\<lambda>e. block (snd e)) (entries sparse_loaded))"
    "block_at sparse_loaded 0 \<le> 5500" "5500 \<le> block_at sparse_loaded (len sparse_loaded - 1)"
    by (simp_all add: sparse_shape block_at_def loaded_row_def)
  have r: "window_reach sparse_loaded 5500"
    by (simp add: window_reach_def Let_def sparse_reach)
  have g: "2 \<le> len cluster_loaded" "block_interval cluster_loaded \<noteq> 0"
    "sorted (map (\<lambda>e. block (snd e)) (entries cluster_loaded))"
    "block_at cluster_loaded 0 \<le> 2" "2 \<le> block_at cluster_loaded (len cluster_loaded - 1)"
    by (simp_all add: cluster_shape block_at_def loaded_row_def)
  have u: "window_reach cluster_loaded 2"
    by (simp add: window_reach_def Let_def cluster_reach)
  from bracket_search_brackets [OF h r] bracket_search_brackets [OF g u] r u
    sparse_reach(1,2) cluster_reach(1,2) bracket_search_sparse bracket_search_cluster
  show ?thesis by (simp only: load_sparse load_cluster simp_thms)
qed

text \<open>
  C5 as stated fails: the forward search looks at five rows only and there is no wider
  search after it. With the blocks 0, 1, 3, 6, 10, 15, 100, 200, 300 (interval 100) and the
  target 16, the approximate index is 0, the five rows from there are all below the target,
  and the search returns the positions 4 and 5; the block at position 5 is 15, below the
  target.
\<close>

theorem bracket_search_window_counterexample:
  "bracket_search (load_data skew_raw) 16 = Some (4, 5)
   \<and> block (snd (entries (load_data skew_raw) ! 5)) < 16
   \<and> 2 \<le> length (entries (load_data skew_raw))
   \<and> block (snd (hd (entries (load_data skew_raw)))) \<le> 16
   \<and> 16 \<le> block (snd (last (entries (load_data skew_raw))))"
proof -
  have k: "block_interval skew_loaded \<noteq> 0" by (simp add: skew_shape)
  have a: "max 0 (if len skew_loaded \<le> py_int (16 / block_interval skew_loaded)
                  then len skew_loaded - 1 else py_int (16 / block_interval skew_loaded)) = 0"
    by (simp add: skew_shape py_int_def)
  have e: "iloc skew_loaded 0 = Some (0, loaded_row 0 1 0)"
    "iloc skew_loaded (0 + 1) = Some (1, loaded_row 1 2 0)"
    by (simp_all add: iloc_def skew_shape)
  have c: "block (snd (0 :: int, loaded_row 0 1 0)) < 16"
    "\<not> 16 < block (snd (1 :: int, loaded_row 1 2 0))"
    by (simp_all add: loaded_row_def)
  have s: "iloc_slice (entries skew_loaded) 0 (min (len skew_loaded) (0 + 5))
             = [(0, loaded_row 0 1 0), (1, loaded_row 1 2 0), (2, loaded_row 3 3 0),
                (3, loaded_row 6 4 0), (4, loaded_row 10 5 0)]"
    by (simp add: skew_shape iloc_slice_nonneg)
  have m: "le_matches [(0, loaded_row 0 1 0), (1, loaded_row 1 2 0), (2, loaded_row 3 3 0),
                (3, loaded_row 6 4 0), (4, loaded_row 10 5 0)] 16
             = [(0, True), (1, True), (2, True), (3, True), (4, True)]"
    by (simp add: le_matches_def loaded_row_def)
  have x: "list_ex snd [(0 :: int, True), (1, True), (2, True), (3, True), (4, True)]"
    "idxmax (rev [(0 :: int, True), (1, True), (2, True), (3, True), (4, True)]) = Some 4"
    by (simp_all add: idxmax_def)
  have b: "bracket_search skew_loaded 16 = Some (0 + 4, min (len skew_loaded - 1) (0 + 4 + 1))"
    using k a e(1) c(1) e(2) c(2) s
    by (rule bracket_search_forward) (simp_all only: m x)
  have r: "block (snd (entries skew_loaded ! 5)) < 16" "2 \<le> length (entries skew_loaded)"
    "block (snd (hd (entries skew_loaded))) \<le> 16" "16 \<le> block (snd (last (entries skew_loaded)))"
    by (simp_all add: skew_shape loaded_row_def)
  from b r show ?thesis by (simp add: load_skew skew_shape)
qed

text \<open>
  The label added to the start of the search window: with the blocks 0, 1000, 2000, 3000,
  3500, 4000 and the target 3600 the forward search starts at position 3, \<open>idxmax\<close>
  returns the label 4, and \<open>idx_before = 3 + 4 = 7\<close> is past the last row, with
  \<open>idx_after = 5\<close> before it.
\<close>

lemma bracket_search_label_offset: "bracket_search (load_data gap_raw) 3600 = Some (7, 5)"
proof -
  have k: "block_interval gap_loaded \<noteq> 0" by (simp add: gap_shape)
  have a: "max 0 (if len gap_loaded \<le> py_int (3600 / block_interval gap_loaded)
                  then len gap_loaded - 1 else py_int (3600 / block_interval gap_loaded)) = 3"
    by (simp add: gap_shape py_int_def)
  have e: "iloc gap_loaded 3 = Some (3, loaded_row 3000 4 0)"
    "iloc gap_loaded (3 + 1) = Some (4, loaded_row 3500 5 0)"
    by (simp_all add: iloc_def gap_shape)
  have c: "block (snd (3 :: int, loaded_row 3000 4 0)) < 3600"
    "\<not> 3600 < block (snd (4 :: int, loaded_row 3500 5 0))"
    by (simp_all add: loaded_row_def)
  have s: "iloc_slice (entries gap_loaded) 3 (min (len gap_loaded) (3 + 5))
             = [(3, loaded_row 3000 4 0), (4, loaded_row 3500 5 0), (5, loaded_row 4000 6 0)]"
    by (simp add: gap_shape iloc_slice_nonneg)
  have m: "le_matches [(3, loaded_row 3000 4 0), (4, loaded_row 3500 5 0), (5, loaded_row 4000 6 0)]
             3600 = [(3, True), (4, True), (5, False)]"
    by (simp add: le_matches_def loaded_row_def)
  have x: "list_ex snd [(3 :: int, True), (4, True), (5, False)]"
    "idxmax (rev [(3 :: int, True), (4, True), (5, False)]) = Some 4"
    by (simp_all add: idxmax_def)
  have "bracket_search gap_loaded 3600 = Some (3 + 4, min (len gap_loaded - 1) (3 + 4 + 1))"
    using k a e(1) c(1) e(2) c(2) s
    by (rule bracket_search_forward) (simp_all only: m x)
  then show ?thesis by (simp add: load_gap gap_shape)
qed

section \<open>Rows of equal blocks\<close>

lemma load_dup: "load_data dup_raw = dup_loaded"
  by (simp add: dup_raw_def dup_loaded_def load_eval)

lemma dup_shape:
  "entries dup_loaded = [(0, loaded_row 0 0 0), (1, loaded_row 5 1 0), (2, loaded_row 5 2 0),
                 (3, loaded_row 10 3 0)]"
  "block_interval dup_loaded = 5"
  "len dup_loaded = 4"
  by (simp_all add: dup_loaded_def len_def)

text \<open>
  When the search returns two positions of the frame, \<open>interpolate_data\<close> returns the row
  that \<open>interp_row\<close> synthesizes between them.
\<close>

lemma interpolate_data_synthesizes:
  assumes "1 < len d" and "bracket_search d t = Some (ib, ia)" and "0 \<le> ib" and "ia < len d"
    and "iloc d ib = Some b" and "iloc d ia = Some a"
    and "interp_row (snd b) (snd a) t = Some r"
  shows "interpolate_data d t = Series r"
  using assms by (simp add: interpolate_data_def interpolate_try_def)

text \<open>
  Two rows of the same block in the data: at the target 5 the search returns the
  positions 1 and 2, both of block 5, and the result has x = 1, the value of the first of
  the two rows, and not x = 2.
\<close>

lemma interpolate_data_equal_blocks:
  "interpolate_data (load_data dup_raw) 5 =
     Series \<lparr>block = 5,
           vals = [(''x'', Num 1), (''AlphaPoints_per_block_in'', Num 0),
                   (''AlphaPoints_per_block_out'', Num 0), (''net_alpha_points_flow'', Num 0),
                   (''day'', Num 0)]\<rparr>"
proof -
  have k: "block_interval dup_loaded \<noteq> 0" by (simp add: dup_shape)
  have a: "max 0 (if len dup_loaded \<le> py_int (5 / block_interval dup_loaded)
                  then len dup_loaded - 1 else py_int (5 / block_interval dup_loaded)) = 1"
    by (simp add: dup_shape py_int_def)
  have e: "iloc dup_loaded 1 = Some (1, loaded_row 5 1 0)"
    "iloc dup_loaded 2 = Some (2, loaded_row 5 2 0)"
    by (simp_all add: iloc_def dup_shape)
  have "bracket_search dup_loaded 5 = Some (1, min (len dup_loaded - 1) (1 + 1))"
    using k a e(1) by (rule bracket_search_exact) (simp add: loaded_row_def)
  then have b: "bracket_search dup_loaded 5 = Some (1, 2)" by (simp add: dup_shape)
  have f: "interp_factor (block (loaded_row 5 1 0)) (block (loaded_row 5 2 0)) 5 = Num 0"
    by (simp add: loaded_row_def interp_factor_def)
  have i: "interp_row (snd (1 :: int, loaded_row 5 1 0)) (snd (2 :: int, loaded_row 5 2 0)) 5 =
     Some \<lparr>block = 5,
           vals = [(''x'', Num 1), (''AlphaPoints_per_block_in'', Num 0),
                   (''AlphaPoints_per_block_out'', Num 0), (''net_alpha_points_flow'', Num 0),
                   (''day'', Num 0)]\<rparr>"
    unfolding interp_row_def snd_conv f by (simp add: interp_eval Let_def)
  have "1 < len dup_loaded" "(0 :: int) \<le> 1" "2 < len dup_loaded" by (simp_all add: dup_shape)
  from interpolate_data_synthesizes [OF this(1) b this(2,3) e i]
  show ?thesis by (simp only: load_dup)
qed

end
